(* ===== verification/Kalix_Prelude.thy ===== *)
theory Kalix_Prelude
  imports Main "HOL-Library.Word" "HOL-Library.Signed_Division"
begin

text \<open>
  Shared vocabulary of the development: the names of the C integer types, the collections of
  rewrite rules the component theories add to, and the generic facts about words, folds and
  invariants that more than one component needs. Nothing here models code.
\<close>

unbundle bit_operations_syntax

section \<open>Names for the C integer types\<close>

text \<open>
  A C \<open>int\<close> is an \<open>i32\<close>, read with \<^const>\<open>sint\<close>; a plain \<open>char\<close> is signed on x86-64, so
  code that promotes one reads the \<open>u8\<close> with \<^const>\<open>sint\<close> too.
\<close>

type_synonym u8 = "8 word"
type_synonym u16 = "16 word"
type_synonym u32 = "32 word"
type_synonym u64 = "64 word"
type_synonym i32 = "32 word"
type_synonym i64 = "64 word"

named_theorems mem_simps \<open>reads after writes of the byte memory\<close>
named_theorems frame_simps \<open>what an operation leaves unchanged\<close>

section \<open>Words\<close>

lemma unat_Suc_less:
  fixes i n :: "'a::len word"
  assumes "i < n"
  shows "unat (i + 1) = Suc (unat i)"
proof -
  have "unat i < unat n"
    using assms by (simp add: word_less_nat_alt)
  moreover have "unat n < 2 ^ LENGTH('a)"
    by (rule unsigned_less)
  ultimately have "unat i + 1 < 2 ^ LENGTH('a)"
    by linarith
  then show ?thesis
    by (simp add: unat_word_ariths)
qed

lemma unat_of_nat_small:
  "n < 2 ^ LENGTH('a) \<Longrightarrow> unat (of_nat n :: 'a::len word) = n"
  by (simp add: unat_of_nat take_bit_nat_eq_self)

lemma unat_of_nat64: "n < 18446744073709551616 \<Longrightarrow> unat (of_nat n :: u64) = n"
  by (rule unat_of_nat_small) simp

lemma unat_of_nat32: "n < 4294967296 \<Longrightarrow> unat (of_nat n :: u32) = n"
  by (rule unat_of_nat_small) simp

lemma unat_lt_u8: "unat (x :: u8) < 256"
  using unsigned_less [of x, where ?'a = nat] by simp

lemma unat_lt_u16: "unat (x :: u16) < 65536"
  using unsigned_less [of x, where ?'a = nat] by simp

lemma unat_lt_u32: "unat (x :: u32) < 4294967296"
  using unsigned_less [of x, where ?'a = nat] by simp

lemma unat_lt_u64: "unat (x :: u64) < 18446744073709551616"
  using unsigned_less [of x, where ?'a = nat] by simp

lemma of_nat_inj_on64:
  assumes "i < 18446744073709551616" "j < 18446744073709551616"
  shows "(of_nat i :: u64) = of_nat j \<longleftrightarrow> i = j"
  using assms by (metis unat_of_nat64)

lemma unat_ucast_up:
  fixes x :: "'a::len word"
  assumes "LENGTH('a) \<le> LENGTH('b::len)"
  shows "unat (ucast x :: 'b word) = unat x"
proof -
  have "unat x < 2 ^ LENGTH('a)"
    by (rule unsigned_less)
  also have "(2::nat) ^ LENGTH('a) \<le> 2 ^ LENGTH('b)"
    using assms by simp
  finally show ?thesis
    by (simp add: unsigned_ucast_eq take_bit_nat_eq_self)
qed

lemma unat_ucast_up32: "unat (ucast (x :: u32) :: u64) = unat x"
  by (rule unat_ucast_up) simp

lemma unat_ucast_up16: "unat (ucast (x :: u16) :: u64) = unat x"
  by (rule unat_ucast_up) simp

lemma unat_ucast_up8: "unat (ucast (x :: u8) :: u64) = unat x"
  by (rule unat_ucast_up) simp

lemma ucast_of_nat_u32: "n < 4294967296 \<Longrightarrow> (ucast (of_nat n :: u32) :: u64) = of_nat n"
  by (metis unat_of_nat32 unat_ucast_up32 of_nat_unat)

lemma sint_of_nat32: "n < 2147483648 \<Longrightarrow> sint (of_nat n :: i32) = int n"
  by (simp add: signed_of_nat signed_take_bit_int_eq_self)

lemma sint_of_nat8: "n < 128 \<Longrightarrow> sint (of_nat n :: u8) = int n"
  by (simp add: signed_of_nat signed_take_bit_int_eq_self)

lemma sint_ascii: "unat (c :: u8) < 128 \<Longrightarrow> sint c = int (unat c)"
  using sint_of_nat8 [of "unat c"] by simp

lemma scast_of_nat32: "n < 2147483648 \<Longrightarrow> (scast (of_nat n :: i32) :: u64) = of_nat n"
  by (simp only: scast_eq sint_of_nat32) simp

lemma i32_nonneg_cases:
  assumes "0 \<le> sint (x :: i32)"
  obtains n where "x = of_nat n" "n < 2147483648" "sint x = int n"
proof
  let ?n = "nat (sint x)"
  show n: "?n < 2147483648"
    using sint_lt [of x] by simp
  have "word_of_int (int ?n) = x"
    using assms by simp
  then show "x = of_nat ?n"
    by (simp only: of_int_of_nat_eq)
  show "sint x = int ?n"
    using assms by simp
qed

section \<open>Iterated operations\<close>

text \<open>
  Several components are driven by a sequence of events (scan codes, mouse bytes, timer ticks).
  What one event keeps, a sequence of events keeps; the locale states it once.
\<close>

locale event_machine =
  fixes step :: "'s \<Rightarrow> 'e \<Rightarrow> 's"
    and ok :: "'s \<Rightarrow> bool"
  assumes step_ok: "ok s \<Longrightarrow> ok (step s e)"
begin

lemma run_ok: "ok s \<Longrightarrow> ok (foldl step s es)"
  by (induction es arbitrary: s) (auto intro: step_ok)

lemma run_split_ok: "ok s \<Longrightarrow> ok (foldl step (foldl step s es) es')"
  by (intro run_ok)

lemma run_every_prefix_ok: "ok s \<Longrightarrow> n \<le> length es \<Longrightarrow> ok (foldl step s (take n es))"
  by (rule run_ok)

end

lemma fold_upt_Suc: "fold f [0..<Suc n] s = f n (fold f [0..<n] s)"
  by simp

lemma fold_invariant_upt:
  assumes "P 0 s" and "\<And>i s. i < n \<Longrightarrow> P i s \<Longrightarrow> P (Suc i) (f i s)"
  shows "P n (fold f [0..<n] s)"
  using assms
proof (induction n)
  case 0
  then show ?case by simp
next
  case (Suc n)
  then have "P n (fold f [0..<n] s)" by simp
  with Suc.prems(2) show ?case by simp
qed

end
