(* ===== verification/Memory.thy ===== *)
theory Memory
  imports Kalix_Prelude
begin

text \<open>
  The byte memory under the kernel's pointers. A pointer is a \<open>u64\<close> virtual address; the
  translation \<open>tr\<close> (the page tables in force, set up by the boot loader) takes it to a physical
  address, and memory maps physical addresses to bytes. Two virtual addresses with one
  translation alias, which the kernel relies on: a frame is reached at its physical address
  and again at that address plus \<open>hhdm\<close>. Multi-byte accesses are little-endian, as on x86-64.
\<close>

type_synonym memory = "u64 \<Rightarrow> u8"
type_synonym xlation = "u64 \<Rightarrow> u64"

section \<open>Byte access\<close>

definition ld8 :: "xlation \<Rightarrow> memory \<Rightarrow> u64 \<Rightarrow> u8" where
  "ld8 tr m a = m (tr a)"

definition st8 :: "xlation \<Rightarrow> memory \<Rightarrow> u64 \<Rightarrow> u8 \<Rightarrow> memory" where
  "st8 tr m a v = m(tr a := v)"

lemma ld8_st8 [mem_simps]: "ld8 tr (st8 tr m a v) b = (if tr b = tr a then v else ld8 tr m b)"
  by (simp add: ld8_def st8_def)

section \<open>Regions\<close>

text \<open>
  The physical footprint of the \<open>n\<close> bytes at \<open>a\<close>, and the condition that they are \<open>n\<close> distinct
  physical bytes.
\<close>

definition foot :: "xlation \<Rightarrow> u64 \<Rightarrow> nat \<Rightarrow> u64 set" where
  "foot tr a n = (\<lambda>k. tr (a + of_nat k)) ` {..<n}"

definition inj_at :: "xlation \<Rightarrow> u64 \<Rightarrow> nat \<Rightarrow> bool" where
  "inj_at tr a n \<longleftrightarrow> inj_on (\<lambda>k. tr (a + of_nat k)) {..<n}"

lemma foot_0 [simp]: "foot tr a 0 = {}"
  by (simp add: foot_def)

lemma foot_Suc: "foot tr a (Suc n) = insert (tr (a + of_nat n)) (foot tr a n)"
  by (simp add: foot_def lessThan_Suc)

lemma foot_Suc_front: "foot tr a (Suc n) = insert (tr a) (foot tr (a + 1) n)"
proof -
  have "{..<Suc n} = insert 0 (Suc ` {..<n})"
    by (rule lessThan_Suc_eq_insert_0)
  then show ?thesis
    by (simp add: foot_def image_image add.assoc)
qed

lemma in_foot: "k < n \<Longrightarrow> tr (a + of_nat k) \<in> foot tr a n"
  by (simp add: foot_def)

lemma in_foot0: "0 < n \<Longrightarrow> tr a \<in> foot tr a n"
  using in_foot [of 0 n tr a] by simp

lemma foot_mono: "m \<le> n \<Longrightarrow> foot tr a m \<subseteq> foot tr a n"
  by (auto simp: foot_def)

lemma foot_shift:
  assumes "i + n \<le> m"
  shows "foot tr (a + of_nat i) n \<subseteq> foot tr a m"
proof
  fix p
  assume "p \<in> foot tr (a + of_nat i) n"
  then obtain k where "k < n" and "p = tr (a + of_nat (i + k))"
    by (auto simp: foot_def add.assoc)
  with assms show "p \<in> foot tr a m"
    by (simp only:) (rule in_foot, simp)
qed

lemma inj_at_mono: "m \<le> n \<Longrightarrow> inj_at tr a n \<Longrightarrow> inj_at tr a m"
  by (auto simp: inj_at_def intro: inj_on_subset)

lemma inj_at_eq:
  "inj_at tr a n \<Longrightarrow> i < n \<Longrightarrow> j < n \<Longrightarrow> tr (a + of_nat i) = tr (a + of_nat j) \<longleftrightarrow> i = j"
  by (auto simp: inj_at_def inj_on_def)

lemma inj_at_shift: "inj_at tr a m \<Longrightarrow> i + n \<le> m \<Longrightarrow> inj_at tr (a + of_nat i) n"
proof -
  assume inj: "inj_at tr a m" and le: "i + n \<le> m"
  show ?thesis
    unfolding inj_at_def
  proof (rule inj_onI)
    fix x y
    assume xy: "x \<in> {..<n}" "y \<in> {..<n}"
      and eq: "tr (a + of_nat i + of_nat x) = tr (a + of_nat i + of_nat y)"
    then have "tr (a + of_nat (i + x)) = tr (a + of_nat (i + y))"
      by (simp add: add.assoc)
    moreover have "i + x < m" "i + y < m"
      using xy le by auto
    ultimately show "x = y"
      using inj_at_eq [OF inj] by (metis add_left_cancel)
  qed
qed

section \<open>Runs of bytes\<close>

definition ld_bytes :: "xlation \<Rightarrow> memory \<Rightarrow> u64 \<Rightarrow> nat \<Rightarrow> u8 list" where
  "ld_bytes tr m a n = map (\<lambda>k. ld8 tr m (a + of_nat k)) [0..<n]"

fun st_bytes :: "xlation \<Rightarrow> memory \<Rightarrow> u64 \<Rightarrow> u8 list \<Rightarrow> memory" where
  "st_bytes tr m a [] = m"
| "st_bytes tr m a (b # bs) = st_bytes tr (st8 tr m a b) (a + 1) bs"

lemma length_ld_bytes [simp]: "length (ld_bytes tr m a n) = n"
  by (simp add: ld_bytes_def)

lemma nth_ld_bytes: "k < n \<Longrightarrow> ld_bytes tr m a n ! k = ld8 tr m (a + of_nat k)"
  by (simp add: ld_bytes_def)

lemma ld_bytes_cong:
  "(\<And>p. p \<in> foot tr a n \<Longrightarrow> m p = m' p) \<Longrightarrow> ld_bytes tr m a n = ld_bytes tr m' a n"
  by (auto simp: ld_bytes_def ld8_def foot_def)

lemma ld_bytes_Suc: "ld_bytes tr m a (Suc n) = ld8 tr m a # ld_bytes tr m (a + 1) n"
  by (simp add: ld_bytes_def upt_conv_Cons map_Suc_upt [symmetric] add.assoc del: upt_Suc)

lemma ld_bytes_0 [simp]: "ld_bytes tr m a 0 = []"
  by (simp add: ld_bytes_def)

lemma st_bytes_other: "p \<notin> foot tr a (length bs) \<Longrightarrow> st_bytes tr m a bs p = m p"
proof (induction bs arbitrary: m a)
  case Nil
  then show ?case by simp
next
  case (Cons b bs)
  then show ?case by (auto simp: foot_Suc_front st8_def)
qed

lemma st_bytes_at:
  assumes "inj_at tr a (length bs)" and "k < length bs"
  shows "st_bytes tr m a bs (tr (a + of_nat k)) = bs ! k"
  using assms
proof (induction bs arbitrary: m a k)
  case Nil
  then show ?case by simp
next
  case (Cons b bs)
  have inj: "inj_at tr (a + 1) (length bs)"
    using inj_at_shift [OF Cons.prems(1), of 1 "length bs"] by simp
  show ?case
  proof (cases k)
    case 0
    have "tr a \<notin> foot tr (a + 1) (length bs)"
    proof
      assume "tr a \<in> foot tr (a + 1) (length bs)"
      then obtain j where "j < length bs" and "tr (a + of_nat 0) = tr (a + of_nat (Suc j))"
        by (auto simp: foot_def add.assoc)
      with inj_at_eq [OF Cons.prems(1), of 0 "Suc j"] show False by simp
    qed
    then show ?thesis using 0 by (simp add: st_bytes_other st8_def)
  next
    case (Suc j)
    then have "st_bytes tr (st8 tr m a b) (a + 1) bs (tr (a + 1 + of_nat j)) = bs ! j"
      using Cons.prems inj by (intro Cons.IH) auto
    then show ?thesis using Suc by (simp add: add.assoc)
  qed
qed

lemma ld_bytes_st_bytes:
  "inj_at tr a (length bs) \<Longrightarrow> ld_bytes tr (st_bytes tr m a bs) a (length bs) = bs"
  by (rule nth_equalityI) (simp_all add: nth_ld_bytes ld8_def st_bytes_at)

lemma ld_bytes_st_bytes_other:
  "foot tr b n \<inter> foot tr a (length bs) = {} \<Longrightarrow>
   ld_bytes tr (st_bytes tr m a bs) b n = ld_bytes tr m b n"
  by (rule ld_bytes_cong) (simp add: st_bytes_other disjoint_iff)

lemma foot_apart:
  assumes "inj_at tr a N" and "i + n \<le> N" and "j + k \<le> N" and "i + n \<le> j \<or> j + k \<le> i"
  shows "foot tr (a + of_nat i) n \<inter> foot tr (a + of_nat j) k = {}"
proof -
  have False if p: "p \<in> foot tr (a + of_nat i) n" "p \<in> foot tr (a + of_nat j) k" for p
  proof -
    from p obtain x y where "x < n" "y < k"
      and "p = tr (a + of_nat (i + x))" "p = tr (a + of_nat (j + y))"
      by (auto simp: foot_def add.assoc)
    then have "i + x = j + y"
      using inj_at_eq [OF assms(1), of "i + x" "j + y"] assms(2,3) by simp
    with \<open>x < n\<close> \<open>y < k\<close> assms(4) show False by auto
  qed
  then show ?thesis by blast
qed

section \<open>Little-endian values\<close>

fun le_word :: "u8 list \<Rightarrow> 'a::len word" where
  "le_word [] = 0"
| "le_word (b # bs) = ucast b OR push_bit 8 (le_word bs)"

definition le_bytes :: "nat \<Rightarrow> 'a::len word \<Rightarrow> u8 list" where
  "le_bytes n w = map (\<lambda>k. ucast (drop_bit (8 * k) w)) [0..<n]"

lemma length_le_bytes [simp]: "length (le_bytes n w) = n"
  by (simp add: le_bytes_def)

lemma bit_le_word:
  "bit (le_word bs :: 'a::len word) i \<longleftrightarrow>
   i < LENGTH('a) \<and> i div 8 < length bs \<and> bit (bs ! (i div 8)) (i mod 8)"
proof (induction bs arbitrary: i)
  case Nil
  then show ?case by simp
next
  case (Cons b bs)
  show ?case
  proof (cases "i < 8")
    case True
    then show ?thesis
      by (auto simp: bit_or_iff bit_push_bit_iff bit_ucast_iff dest: bit_imp_le_length)
  next
    case False
    then have "\<not> bit b i"
      using bit_imp_le_length [of b i] by auto
    moreover have "i div 8 = Suc ((i - 8) div 8)" "i mod 8 = (i - 8) mod 8"
      using False by (auto simp: le_div_geq le_mod_geq)
    ultimately show ?thesis
      using False Cons.IH [of "i - 8"]
      by (auto simp: bit_or_iff bit_push_bit_iff bit_ucast_iff dest: bit_imp_le_length)
  qed
qed

lemma bit_le_bytes:
  "k < n \<Longrightarrow> bit (le_bytes n (w :: 'a::len word) ! k) i \<longleftrightarrow> i < 8 \<and> bit w (8 * k + i)"
  by (auto simp: le_bytes_def bit_ucast_iff bit_drop_bit_eq dest: bit_imp_le_length)

lemma le_word_le_bytes:
  fixes w :: "'a::len word"
  assumes "LENGTH('a) \<le> 8 * n"
  shows "le_word (le_bytes n w) = w"
proof (rule bit_word_eqI)
  fix i
  assume i: "i < LENGTH('a)"
  with assms have "i div 8 < n" by (simp add: less_mult_imp_div_less mult.commute)
  then show "bit (le_word (le_bytes n w) :: 'a word) i = bit w i"
    using i by (simp add: bit_le_word bit_le_bytes)
qed

lemma le_bytes_le_word:
  assumes "length bs = n" and "8 * n \<le> LENGTH('a)"
  shows "le_bytes n (le_word bs :: 'a::len word) = bs"
proof (rule nth_equalityI)
  fix k
  assume "k < length (le_bytes n (le_word bs :: 'a word))"
  then have k: "k < n" by simp
  show "le_bytes n (le_word bs :: 'a word) ! k = bs ! k"
  proof (rule bit_word_eqI)
    fix i
    assume "i < LENGTH(8)"
    then have "i < 8" by simp
    then show "bit (le_bytes n (le_word bs :: 'a word) ! k) i = bit (bs ! k) i"
      using k assms by (simp add: bit_le_bytes bit_le_word)
  qed
qed (simp add: assms)

definition ld16 :: "xlation \<Rightarrow> memory \<Rightarrow> u64 \<Rightarrow> u16" where
  "ld16 tr m a = le_word (ld_bytes tr m a 2)"

definition ld32 :: "xlation \<Rightarrow> memory \<Rightarrow> u64 \<Rightarrow> u32" where
  "ld32 tr m a = le_word (ld_bytes tr m a 4)"

definition ld64 :: "xlation \<Rightarrow> memory \<Rightarrow> u64 \<Rightarrow> u64" where
  "ld64 tr m a = le_word (ld_bytes tr m a 8)"

definition st32 :: "xlation \<Rightarrow> memory \<Rightarrow> u64 \<Rightarrow> u32 \<Rightarrow> memory" where
  "st32 tr m a v = st_bytes tr m a (le_bytes 4 v)"

definition st64 :: "xlation \<Rightarrow> memory \<Rightarrow> u64 \<Rightarrow> u64 \<Rightarrow> memory" where
  "st64 tr m a v = st_bytes tr m a (le_bytes 8 v)"

lemma ld32_st32 [mem_simps]: "inj_at tr a 4 \<Longrightarrow> ld32 tr (st32 tr m a v) a = v"
  using ld_bytes_st_bytes [of tr a "le_bytes 4 v" m]
  by (simp add: ld32_def st32_def le_word_le_bytes)

lemma ld64_st64 [mem_simps]: "inj_at tr a 8 \<Longrightarrow> ld64 tr (st64 tr m a v) a = v"
  using ld_bytes_st_bytes [of tr a "le_bytes 8 v" m]
  by (simp add: ld64_def st64_def le_word_le_bytes)

lemma st32_other: "p \<notin> foot tr a 4 \<Longrightarrow> st32 tr m a v p = m p"
  by (simp add: st32_def st_bytes_other)

lemma st64_other: "p \<notin> foot tr a 8 \<Longrightarrow> st64 tr m a v p = m p"
  by (simp add: st64_def st_bytes_other)

lemma ld64_cong: "(\<And>p. p \<in> foot tr a 8 \<Longrightarrow> m p = m' p) \<Longrightarrow> ld64 tr m a = ld64 tr m' a"
  unfolding ld64_def by (metis ld_bytes_cong)

lemma ld32_cong: "(\<And>p. p \<in> foot tr a 4 \<Longrightarrow> m p = m' p) \<Longrightarrow> ld32 tr m a = ld32 tr m' a"
  unfolding ld32_def by (metis ld_bytes_cong)

lemma ld64_st64_other: "foot tr b 8 \<inter> foot tr a 8 = {} \<Longrightarrow> ld64 tr (st64 tr m a v) b = ld64 tr m b"
  by (rule ld64_cong) (simp add: st64_other disjoint_iff)

section \<open>Regions under the identity translation\<close>

lemma inj_at_id: "n \<le> 18446744073709551616 \<Longrightarrow> inj_at (\<lambda>a. a) a n"
  by (auto simp: inj_at_def inj_on_def of_nat_inj_on64)

lemma foot_id:
  assumes "unat a + n \<le> 18446744073709551616"
  shows "foot (\<lambda>a. a) a n = {p. unat a \<le> unat p \<and> unat p < unat a + n}"
proof (rule set_eqI)
  fix p
  have add: "unat (a + of_nat k) = unat a + k" if "k < n" for k
    using that assms by (simp add: unat_word_ariths unat_of_nat64)
  show "p \<in> foot (\<lambda>a. a) a n \<longleftrightarrow> p \<in> {p. unat a \<le> unat p \<and> unat p < unat a + n}"
  proof
    assume "p \<in> foot (\<lambda>a. a) a n"
    then show "p \<in> {p. unat a \<le> unat p \<and> unat p < unat a + n}"
      by (auto simp: foot_def add)
  next
    assume "p \<in> {p. unat a \<le> unat p \<and> unat p < unat a + n}"
    then have p: "p = a + of_nat (unat p - unat a)" "unat p - unat a < n"
      by (auto simp: of_nat_diff)
    have "a + of_nat (unat p - unat a) \<in> foot (\<lambda>a. a) a n"
      using p(2) by (rule in_foot)
    with p(1) show "p \<in> foot (\<lambda>a. a) a n" by simp
  qed
qed

end
