(* ===== verification/Machine.thy ===== *)
theory Machine
  imports Memory
begin

text \<open>
  The machine the kernel runs on, and the code that touches it directly (\<open>drivers/io.c\<close> and the
  control-register readers of \<open>mem/vmm_mem.c\<close>). The record is the root of the kernel's state:
  each component extends it with its own C globals. \<open>xlat\<close> is the translation the page tables
  loaded in \<open>cr3\<close> give, and \<open>inport n p\<close> is the byte the device behind port \<open>p\<close> supplies to the
  \<open>n\<close>-th read; both are the environment, parameters of the model. \<open>outs\<close> logs the port writes
  in order. \<open>locals\<close> gives the address the compiler chose for a local array that is passed to a
  pointer routine.
\<close>

record machine =
  mem :: memory
  xlat :: "u64 \<Rightarrow> xlation"
  cr3 :: u64
  cr2 :: u64
  iflag :: bool
  idtr :: "u16 \<times> u64"
  inport :: "nat \<Rightarrow> u16 \<Rightarrow> u8"
  nreads :: nat
  outs :: "(u16 \<times> u8) list"
  locals :: "string \<Rightarrow> u64"

text \<open>The translation in force.\<close>

abbreviation vtr :: "'a machine_scheme \<Rightarrow> xlation" where
  "vtr s \<equiv> xlat s (cr3 s)"

abbreviation load8 :: "'a machine_scheme \<Rightarrow> u64 \<Rightarrow> u8" where
  "load8 s a \<equiv> ld8 (vtr s) (mem s) a"

abbreviation load16 :: "'a machine_scheme \<Rightarrow> u64 \<Rightarrow> u16" where
  "load16 s a \<equiv> ld16 (vtr s) (mem s) a"

abbreviation load32 :: "'a machine_scheme \<Rightarrow> u64 \<Rightarrow> u32" where
  "load32 s a \<equiv> ld32 (vtr s) (mem s) a"

abbreviation load64 :: "'a machine_scheme \<Rightarrow> u64 \<Rightarrow> u64" where
  "load64 s a \<equiv> ld64 (vtr s) (mem s) a"

definition store8 :: "u64 \<Rightarrow> u8 \<Rightarrow> 'a machine_scheme \<Rightarrow> 'a machine_scheme" where
  "store8 a v s = s\<lparr>mem := st8 (vtr s) (mem s) a v\<rparr>"

definition store32 :: "u64 \<Rightarrow> u32 \<Rightarrow> 'a machine_scheme \<Rightarrow> 'a machine_scheme" where
  "store32 a v s = s\<lparr>mem := st32 (vtr s) (mem s) a v\<rparr>"

definition store64 :: "u64 \<Rightarrow> u64 \<Rightarrow> 'a machine_scheme \<Rightarrow> 'a machine_scheme" where
  "store64 a v s = s\<lparr>mem := st64 (vtr s) (mem s) a v\<rparr>"

section \<open>Ports (\<open>drivers/io.c\<close>)\<close>

definition read_port :: "u16 \<Rightarrow> 'a machine_scheme \<Rightarrow> u8 \<times> 'a machine_scheme" where
  "read_port port s = (inport s (nreads s) port, s\<lparr>nreads := Suc (nreads s)\<rparr>)"

definition write_port :: "u16 \<Rightarrow> u8 \<Rightarrow> 'a machine_scheme \<Rightarrow> 'a machine_scheme" where
  "write_port port data s = s\<lparr>outs := outs s @ [(port, data)]\<rparr>"

section \<open>Control registers (\<open>mem/vmm_mem.c\<close>)\<close>

definition read_cr3 :: "'a machine_scheme \<Rightarrow> u64" where
  "read_cr3 s = cr3 s"

definition read_cr2 :: "'a machine_scheme \<Rightarrow> u64" where
  "read_cr2 s = cr2 s"

section \<open>How a call ends\<close>

text \<open>
  A call returns a value, stops the machine for good (\<open>except\<close> ends in \<open>for(;;) hlt\<close>), resets it
  (\<open>reboot\<close>), or leaves C behind (a write past the end of a global array, a division by zero).
\<close>

datatype ('a, 's) outcome = Ret (ret_val: 'a) (ret_state: 's) | Halted 's | Restarted | Undef

definition bind_outcome ::
  "('a, 's) outcome \<Rightarrow> ('a \<Rightarrow> 's \<Rightarrow> ('b, 's) outcome) \<Rightarrow> ('b, 's) outcome" where
  "bind_outcome r f = (case r of Ret a s \<Rightarrow> f a s | Halted s \<Rightarrow> Halted s | Restarted \<Rightarrow> Restarted | Undef \<Rightarrow> Undef)"

lemma bind_outcome_simps [simp]:
  "bind_outcome (Ret a s) f = f a s"
  "bind_outcome (Halted s) f = Halted s"
  "bind_outcome Restarted f = Restarted"
  "bind_outcome Undef f = Undef"
  by (simp_all add: bind_outcome_def)

lemma bind_outcome_Ret:
  "bind_outcome r f = Ret b s' \<longleftrightarrow> (\<exists>a s. r = Ret a s \<and> f a s = Ret b s')"
  by (cases r) auto

text \<open>
  A sequence of events, each handled by a call that may not return. The contract of a component that
  handles events: from a good state a call returns in a good state, or ends the run in a way \<open>stops\<close>
  allows. Then a whole run ends in a good state, or at an event that was allowed to end it.
\<close>

fun run_events :: "('s \<Rightarrow> 'e \<Rightarrow> (unit, 's) outcome) \<Rightarrow> 'e list \<Rightarrow> 's \<Rightarrow> (unit, 's) outcome" where
  "run_events step [] s = Ret () s"
| "run_events step (e # es) s = bind_outcome (step s e) (\<lambda>_ t. run_events step es t)"

locale outcome_machine =
  fixes step :: "'s \<Rightarrow> 'e \<Rightarrow> (unit, 's) outcome"
    and ok :: "'s \<Rightarrow> bool"
    and stops :: "'s \<Rightarrow> 'e \<Rightarrow> (unit, 's) outcome \<Rightarrow> bool"
  assumes step_cases: "ok s \<Longrightarrow> (\<exists>t. step s e = Ret () t \<and> ok t) \<or> (stops s e (step s e) \<and> (\<forall>t. step s e \<noteq> Ret () t))"
begin

lemma run_cases:
  assumes "ok s"
  shows "(\<exists>t. run_events step es s = Ret () t \<and> ok t) \<or>
    (\<exists>es1 e es2 t. es = es1 @ e # es2 \<and> run_events step es1 s = Ret () t \<and> ok t \<and>
       stops t e (step t e) \<and> run_events step es s = step t e)"
  using assms
proof (induction es arbitrary: s)
  case (Cons e es)
  show ?case
  proof (cases "\<exists>t. step s e = Ret () t \<and> ok t")
    case True
    then obtain t where t: "step s e = Ret () t" "ok t" by blast
    from Cons.IH [OF t(2)] show ?thesis
    proof
      assume "\<exists>es1 e' es2 u. es = es1 @ e' # es2 \<and> run_events step es1 t = Ret () u \<and> ok u \<and>
        stops u e' (step u e') \<and> run_events step es t = step u e'"
      then obtain es1 e' es2 u where "es = es1 @ e' # es2" "run_events step es1 t = Ret () u" "ok u"
        "stops u e' (step u e')" "run_events step es t = step u e'" by blast
      then show ?thesis
        using t(1) by (intro disjI2 exI [of _ "e # es1"] exI [of _ e'] exI [of _ es2] exI [of _ u]) simp
    qed (use t(1) in simp)
  next
    case False
    then have s: "stops s e (step s e)" "\<forall>t. step s e \<noteq> Ret () t" using step_cases [OF Cons.prems, of e] by auto
    then have "run_events step (e # es) s = step s e" by (cases "step s e") simp_all
    then show ?thesis
      using s(1) Cons.prems by (intro disjI2 exI [of _ "[]"] exI [of _ e] exI [of _ es] exI [of _ s]) simp
  qed
qed simp

end

section \<open>Operations that change little\<close>

text \<open>
  Most of the kernel's routines change memory only, or memory and the port log. Saying so as an
  equation on the whole state gives every other field, of this record and of its extensions, at
  once.
\<close>

definition same_but_mem :: "'a machine_scheme \<Rightarrow> 'a machine_scheme \<Rightarrow> bool" where
  "same_but_mem s s' \<longleftrightarrow> (\<exists>m. s' = s\<lparr>mem := m\<rparr>)"

definition same_but_io :: "'a machine_scheme \<Rightarrow> 'a machine_scheme \<Rightarrow> bool" where
  "same_but_io s s' \<longleftrightarrow> (\<exists>m os. s' = s\<lparr>mem := m, outs := os\<rparr>)"

lemma same_but_mem_refl [simp, intro]: "same_but_mem s s"
  unfolding same_but_mem_def by (rule exI [of _ "mem s"]) simp

lemma same_but_mem_upd [simp, intro]: "same_but_mem s (s\<lparr>mem := m\<rparr>)"
  unfolding same_but_mem_def by blast

lemma same_but_mem_trans: "same_but_mem s t \<Longrightarrow> same_but_mem t u \<Longrightarrow> same_but_mem s u"
  by (auto simp: same_but_mem_def)

lemma same_but_mem_fold:
  "(\<And>i s. same_but_mem s (f i s)) \<Longrightarrow> same_but_mem s (fold f xs s)"
proof (induction xs arbitrary: s)
  case (Cons x xs)
  then show ?case
    using same_but_mem_trans [of s "f x s" "fold f xs (f x s)"] by simp
qed simp

lemma same_but_ioI: "t = s\<lparr>mem := m, outs := os\<rparr> \<Longrightarrow> same_but_io s t"
  unfolding same_but_io_def by blast

lemma same_but_memI: "t = s\<lparr>mem := m\<rparr> \<Longrightarrow> same_but_mem s t"
  unfolding same_but_mem_def by blast

lemma same_but_mem_io: "same_but_mem s t \<Longrightarrow> same_but_io s t"
  unfolding same_but_mem_def by (elim exE, rule same_but_ioI [where os = "outs s"]) simp

lemma same_but_io_refl [simp, intro]: "same_but_io s s"
  by (rule same_but_mem_io) simp

lemma same_but_io_trans:
  assumes "same_but_io s t" "same_but_io t u"
  shows "same_but_io s u"
proof -
  obtain m os where "t = s\<lparr>mem := m, outs := os\<rparr>"
    using assms(1) unfolding same_but_io_def by blast
  moreover obtain m' os' where "u = t\<lparr>mem := m', outs := os'\<rparr>"
    using assms(2) unfolding same_but_io_def by blast
  ultimately have "u = s\<lparr>mem := m', outs := os'\<rparr>" by simp
  then show ?thesis by (rule same_but_ioI)
qed

lemma same_but_io_fold:
  "(\<And>i s. same_but_io s (f i s)) \<Longrightarrow> same_but_io s (fold f xs s)"
proof (induction xs arbitrary: s)
  case (Cons x xs)
  then show ?case
    using same_but_io_trans [of s "f x s" "fold f xs (f x s)"] by simp
qed simp

lemma same_but_mem_store [simp, intro]:
  "same_but_mem s (store8 a v8 s)" "same_but_mem s (store32 a v32 s)" "same_but_mem s (store64 a v64 s)"
  by (simp_all add: store8_def store32_def store64_def)

lemma same_but_io_write_port [simp, intro]: "same_but_io s (write_port p v s)"
  by (rule same_but_ioI [where m = "mem s" and os = "outs s @ [(p, v)]"]) (simp add: write_port_def)

lemma same_but_mem_machine:
  "same_but_mem s t \<Longrightarrow> xlat t = xlat s \<and> cr3 t = cr3 s \<and> cr2 t = cr2 s \<and> iflag t = iflag s \<and>
   idtr t = idtr s \<and> inport t = inport s \<and> nreads t = nreads s \<and> outs t = outs s \<and> locals t = locals s"
  by (auto simp: same_but_mem_def)

lemma same_but_io_machine:
  "same_but_io s t \<Longrightarrow> xlat t = xlat s \<and> cr3 t = cr3 s \<and> cr2 t = cr2 s \<and> iflag t = iflag s \<and>
   idtr t = idtr s \<and> inport t = inport s \<and> nreads t = nreads s \<and> locals t = locals s"
  by (auto simp: same_but_io_def)

end
