(* ===== verification/Vga.thy ===== *)
theory Vga
  imports Machine Font
begin

text \<open>
  \<open>drivers/vga.c\<close>: drawing on the linear framebuffer the boot loader hands over. The record adds
  the driver's globals; \<open>font_base\<close> is where the linker put \<open>font_array\<close>. C \<open>int\<close> coordinates stay
  32-bit words read with \<^const>\<open>sint\<close>, and the index arithmetic of \<open>pixel\<close> is in \<open>size_t\<close>, as in C.
  A text argument is the bytes of the C array; drawing stops at its first zero byte or its end.
  The theorems: \<open>pixel\<close> as a function update of the screen, \<open>printc\<close> as the glyph of the font,
  text output confined to the framebuffer, and where \<open>clear\<close> and line wrapping go wrong.
\<close>

record vga = machine +
  cursorX :: i32
  cursorY :: i32
  fb_addr :: u64
  fb_width :: u16
  fb_height :: u16
  fb_pitch :: u16
  Xmax :: u16
  Ymax :: u16
  defAtt :: u8
  font_base :: u64

text \<open>The colour that stands for a transparent background (\<open>vga.h\<close>).\<close>

definition noback :: u32 where
  "noback = 0x123456fd"

definition pixel :: "i32 \<Rightarrow> i32 \<Rightarrow> u32 \<Rightarrow> 'a vga_scheme \<Rightarrow> 'a vga_scheme" where
  "pixel x y color s =
     (if sint x < uint (fb_width s) \<and> sint y < uint (fb_height s)
      then store32 (fb_addr s + 4 * (scast y * (ucast (fb_pitch s) div 4) + scast x)) color s
      else s)"

definition rectangle :: "i32 \<Rightarrow> i32 \<Rightarrow> i32 \<Rightarrow> i32 \<Rightarrow> u32 \<Rightarrow> 'a vga_scheme \<Rightarrow> 'a vga_scheme" where
  "rectangle x1 y1 x2 y2 color s =
     fold (\<lambda>x. fold (\<lambda>y. pixel (word_of_int x) (word_of_int y) color) [sint y1..sint y2 - 1])
       [sint x1..sint x2 - 1] s"

text \<open>
  \<open>(font_array + ch * 16)[i16]\<close>: \<open>ch\<close> is a signed \<open>char\<close>, so from 0x80 on the glyph pointer lies
  before the table and the byte is whatever memory holds there.
\<close>

definition font_byte :: "'a vga_scheme \<Rightarrow> u8 \<Rightarrow> nat \<Rightarrow> u8" where
  "font_byte s ch i16 =
     (let k = sint ch * 16 + int i16
      in if 0 \<le> k \<and> k < 4096 then font_array ! nat k else load8 s (font_base s + word_of_int k))"

text \<open>
  The inner loop of \<open>printc\<close>, over bits 7 down to 0 of a glyph row; both branches on the background
  colour share it. Transparent text leaves the clear bits alone.
\<close>

fun printc_cols :: "nat \<Rightarrow> u8 \<Rightarrow> nat \<Rightarrow> u32 \<Rightarrow> u32 \<Rightarrow> i32 \<Rightarrow> i32 \<Rightarrow> 'a vga_scheme \<Rightarrow> 'a vga_scheme" where
  "printc_cols 0 ch i16 att back cx cy s = s"
| "printc_cols (Suc i8) ch i16 att back cx cy s =
     printc_cols i8 ch i16 att back (cx + 1) cy
       (if bit (font_byte s ch i16) i8 then pixel cx cy att s
        else if back = noback then s
        else pixel cx cy back s)"

definition printc :: "i32 \<Rightarrow> i32 \<Rightarrow> u8 \<Rightarrow> u32 \<Rightarrow> u32 \<Rightarrow> 'a vga_scheme \<Rightarrow> 'a vga_scheme" where
  "printc x y ch att back s =
     write_port 0xE9 ch
       (fold (\<lambda>i16. printc_cols 8 ch i16 att back (x * 8) (y * 16 + of_nat i16)) [0..<16] s)"

fun prints :: "i32 \<Rightarrow> i32 \<Rightarrow> u8 list \<Rightarrow> u32 \<Rightarrow> u32 \<Rightarrow> 'a vga_scheme \<Rightarrow> 'a vga_scheme" where
  "prints xT yT [] att back s = s"
| "prints xT yT (c # str) att back s =
     (if c = 0 then s
      else if c = 10 \<or> sint xT \<ge> uint (fb_width s) then prints 0 (yT + 1) str att back s
      else prints (xT + 1) yT str att back (printc xT yT c att back s))"

text \<open>
  \<open>printsl\<close> reads \<open>len\<close> characters; \<open>strI + 1 <= len\<close> is 32-bit arithmetic, so the largest \<open>len\<close>
  never ends the loop. The array is given by its indexing function.
\<close>

partial_function (option) printsl_loop ::
  "(u32 \<Rightarrow> u8) \<Rightarrow> u32 \<Rightarrow> u32 \<Rightarrow> u32 \<Rightarrow> u32 \<Rightarrow> i32 \<Rightarrow> i32 \<Rightarrow> 'a vga_scheme \<Rightarrow> 'a vga_scheme option" where
  "printsl_loop str att back len strI xT yT s =
     (if strI + 1 \<le> len
      then if str strI = 10 \<or> sint xT \<ge> uint (fb_width s)
           then printsl_loop str att back len (strI + 1) 0 (yT + 1) s
           else printsl_loop str att back len (strI + 1) (xT + 1) yT (printc xT yT (str strI) att back s)
      else Some s)"

definition printsl ::
  "i32 \<Rightarrow> i32 \<Rightarrow> (u32 \<Rightarrow> u8) \<Rightarrow> u32 \<Rightarrow> u32 \<Rightarrow> u32 \<Rightarrow> 'a vga_scheme \<Rightarrow> 'a vga_scheme option" where
  "printsl x y str att back len s = printsl_loop str att back len 0 x y s"

definition clear :: "u32 \<Rightarrow> 'a vga_scheme \<Rightarrow> 'a vga_scheme" where
  "clear att s =
     fold (\<lambda>i s. store32 (fb_addr s + 4 * of_nat i) att s)
       [0..<nat (sint (ucast (fb_pitch s) * ucast (fb_height s) :: i32))] s"

text \<open>The bytes of a string literal.\<close>

definition lit :: "string \<Rightarrow> u8 list" where
  "lit t = map (\<lambda>c. of_char c) t"

section \<open>What drawing leaves unchanged\<close>

lemma pixel_same [simp, intro]: "same_but_mem s (pixel x y c s)"
  by (simp add: pixel_def)

lemma rectangle_same: "same_but_mem s (rectangle x1 y1 x2 y2 c s)"
  unfolding rectangle_def by (intro same_but_mem_fold pixel_same)

lemma clear_same: "same_but_mem s (clear c s)"
  unfolding clear_def by (intro same_but_mem_fold) simp

lemma printc_cols_same: "same_but_mem s (printc_cols n ch i att back cx cy s)"
proof (induction n arbitrary: cx s)
  case (Suc n)
  let ?s = "if bit (font_byte s ch i) n then pixel cx cy att s
            else if back = noback then s else pixel cx cy back s"
  have "same_but_mem s ?s" by simp
  moreover have "same_but_mem ?s (printc_cols n ch i att back (cx + 1) cy ?s)"
    by (rule Suc.IH)
  ultimately show ?case
    unfolding printc_cols.simps by (rule same_but_mem_trans)
qed simp

lemma printc_same [simp, intro]: "same_but_io s (printc x y ch att back s)"
  unfolding printc_def
  by (rule same_but_io_trans [OF same_but_mem_io [OF same_but_mem_fold] same_but_io_write_port])
    (rule printc_cols_same)

lemma prints_same [simp, intro]: "same_but_io s (prints x y str att back s)"
proof (induction x y str att "back" s rule: prints.induct)
  case (2 xT yT c str att bg s)
  then show ?case
    using same_but_io_trans [OF printc_same [of s xT yT c att bg]] by simp
qed simp

lemma same_but_mem_vga:
  "same_but_mem s t \<Longrightarrow> fb_addr t = fb_addr s \<and> fb_width t = fb_width s \<and> fb_height t = fb_height s \<and>
   fb_pitch t = fb_pitch s \<and> font_base t = font_base s"
  by (auto simp: same_but_mem_def)

lemma same_but_io_vga:
  "same_but_io s t \<Longrightarrow> fb_addr t = fb_addr s \<and> fb_width t = fb_width s \<and> fb_height t = fb_height s \<and>
   fb_pitch t = fb_pitch s \<and> font_base t = font_base s"
  by (auto simp: same_but_io_def)

section \<open>The screen\<close>

text \<open>
  What the framebuffer shows: a colour per coordinate. It is well formed when a line of pixels fits
  in the pitch and its bytes are distinct physical bytes.
\<close>

definition pixel_addr :: "'a vga_scheme \<Rightarrow> nat \<Rightarrow> nat \<Rightarrow> u64" where
  "pixel_addr s x y = fb_addr s + of_nat (4 * (y * (unat (fb_pitch s) div 4) + x))"

definition screen :: "'a vga_scheme \<Rightarrow> nat \<Rightarrow> nat \<Rightarrow> u32" where
  "screen s x y = load32 s (pixel_addr s x y)"

definition fb_bytes :: "'a vga_scheme \<Rightarrow> nat" where
  "fb_bytes s = 4 * (unat (fb_height s) * (unat (fb_pitch s) div 4))"

definition fb_ok :: "'a vga_scheme \<Rightarrow> bool" where
  "fb_ok s \<longleftrightarrow> unat (fb_width s) \<le> unat (fb_pitch s) div 4 \<and> inj_at (vtr s) (fb_addr s) (fb_bytes s)"

abbreviation fb_region :: "'a vga_scheme \<Rightarrow> u64 set" where
  "fb_region s \<equiv> foot (vtr s) (fb_addr s) (fb_bytes s)"

lemma same_but_io_fb:
  assumes "same_but_io s t"
  shows "pixel_addr t = pixel_addr s" "fb_bytes t = fb_bytes s" "fb_ok t = fb_ok s"
    "fb_region t = fb_region s"
  using same_but_io_vga [OF assms] same_but_io_machine [OF assms]
  by (simp_all add: pixel_addr_def [abs_def] fb_bytes_def fb_ok_def)

lemma pixel_eq:
  assumes "x < 2147483648" "y < 2147483648"
  shows "pixel (of_nat x) (of_nat y) c s =
    (if x < unat (fb_width s) \<and> y < unat (fb_height s) then store32 (pixel_addr s x y) c s else s)"
proof -
  have p: "(ucast (fb_pitch s) :: u64) div 4 = of_nat (unat (fb_pitch s) div 4)"
    by (simp add: word_arith_nat_div unat_ucast_up16)
  have idx: "4 * (scast (of_nat y :: i32) * ((ucast (fb_pitch s) :: u64) div 4) + scast (of_nat x :: i32)) =
        (of_nat (4 * (y * (unat (fb_pitch s) div 4) + x)) :: u64)"
    unfolding p scast_of_nat32 [OF assms(1)] scast_of_nat32 [OF assms(2)] by simp
  have guard: "sint (of_nat x :: i32) < uint (fb_width s) \<longleftrightarrow> x < unat (fb_width s)"
    "sint (of_nat y :: i32) < uint (fb_height s) \<longleftrightarrow> y < unat (fb_height s)"
    unfolding sint_of_nat32 [OF assms(1)] sint_of_nat32 [OF assms(2)]
    by (simp_all only: uint_nat of_nat_less_iff)
  show ?thesis
    unfolding pixel_def pixel_addr_def idx guard ..
qed

lemma pixel_index_bound: "x < w \<Longrightarrow> w \<le> p \<Longrightarrow> y < h \<Longrightarrow> y * p + x < h * (p :: nat)"
proof -
  assume "x < w" "w \<le> p" "y < h"
  then have "y * p + x < y * p + p" and "Suc y \<le> h"
    by auto
  moreover from this(2) have "Suc y * p \<le> h * p"
    by (rule mult_le_mono1)
  ultimately show ?thesis by simp
qed

lemma pixel_index_inj:
  assumes "x < (p :: nat)" "x' < p" "y * p + x = y' * p + x'"
  shows "x = x' \<and> y = y'"
proof -
  have "(y * p + x) div p = y" "(y * p + x) mod p = x" "(y' * p + x') div p = y'" "(y' * p + x') mod p = x'"
    using assms(1,2) by simp_all
  then show ?thesis
    using assms(3) by metis
qed

lemma pixel_foot:
  assumes "fb_ok s" "x < unat (fb_width s)" "y < unat (fb_height s)"
  shows "foot (vtr s) (pixel_addr s x y) 4 \<subseteq> fb_region s" "inj_at (vtr s) (pixel_addr s x y) 4"
proof -
  have "y * (unat (fb_pitch s) div 4) + x < unat (fb_height s) * (unat (fb_pitch s) div 4)"
    using assms by (intro pixel_index_bound [of x "unat (fb_width s)"]) (auto simp: fb_ok_def)
  then have le: "4 * (y * (unat (fb_pitch s) div 4) + x) + 4 \<le> fb_bytes s"
    by (simp add: fb_bytes_def)
  from foot_shift [OF le] show "foot (vtr s) (pixel_addr s x y) 4 \<subseteq> fb_region s"
    by (simp add: pixel_addr_def)
  from assms(1) le show "inj_at (vtr s) (pixel_addr s x y) 4"
    unfolding fb_ok_def pixel_addr_def by (blast intro: inj_at_shift)
qed

lemma pixel_apart:
  assumes "fb_ok s" "x < unat (fb_width s)" "y < unat (fb_height s)"
    and "x' < unat (fb_width s)" "y' < unat (fb_height s)" and "(x, y) \<noteq> (x', y')"
  shows "foot (vtr s) (pixel_addr s x y) 4 \<inter> foot (vtr s) (pixel_addr s x' y') 4 = {}"
proof -
  let ?p = "unat (fb_pitch s) div 4"
  have w: "unat (fb_width s) \<le> ?p"
    using assms(1) by (simp add: fb_ok_def)
  have b: "y * ?p + x < unat (fb_height s) * ?p" "y' * ?p + x' < unat (fb_height s) * ?p"
    using assms w by (auto intro: pixel_index_bound)
  have "y * ?p + x \<noteq> y' * ?p + x'"
    using pixel_index_inj [of x ?p x' y y'] assms w by fastforce
  then show ?thesis
    using assms(1) b unfolding pixel_addr_def fb_ok_def fb_bytes_def
    by (intro foot_apart [of _ _ "4 * (unat (fb_height s) * ?p)"]) auto
qed

lemma load32_store32: "inj_at (vtr s) a 4 \<Longrightarrow> load32 (store32 a v s) a = v"
  by (simp add: store32_def ld32_st32)

lemma load32_store32_other:
  "foot (vtr s) q 4 \<inter> foot (vtr s) a 4 = {} \<Longrightarrow> load32 (store32 a v s) q = load32 s q"
  by (simp add: store32_def) (rule ld32_cong, simp add: st32_other disjoint_iff)

lemma screen_pixel:
  assumes "fb_ok s" "x < unat (fb_width s)" "y < unat (fb_height s)" "a < 2147483648" "b < 2147483648"
  shows "screen (pixel (of_nat a) (of_nat b) c s) x y = (if a = x \<and> b = y then c else screen s x y)"
proof -
  have addr: "pixel_addr (store32 q c s) = pixel_addr s" for q
    by (rule same_but_io_fb(1)) (simp add: same_but_mem_io)
  show ?thesis
  proof (cases "a = x \<and> b = y")
    case True
    then show ?thesis
      using assms pixel_foot(2) [of s x y]
      by (simp add: pixel_eq screen_def addr) (simp add: store32_def ld32_st32)
  next
    case False
    then have "foot (vtr s) (pixel_addr s x y) 4 \<inter> foot (vtr s) (pixel_addr s a b) 4 = {}"
      if "a < unat (fb_width s)" "b < unat (fb_height s)"
      using assms that by (intro pixel_apart) auto
    then show ?thesis
      using assms False
      by (auto simp: pixel_eq screen_def addr load32_store32_other)
  qed
qed

section \<open>Glyphs\<close>

text \<open>Whether the font sets the pixel in column \<open>col\<close> and row \<open>row\<close> of the glyph of \<open>ch\<close>.\<close>

definition glyph_bit :: "u8 \<Rightarrow> nat \<Rightarrow> nat \<Rightarrow> bool" where
  "glyph_bit ch col row = bit (font_array ! (unat ch * 16 + row)) (7 - col)"

lemma font_byte_ascii:
  assumes "unat ch < 128" "i < 16"
  shows "font_byte s ch i = font_array ! (unat ch * 16 + i)"
proof -
  have k: "sint ch * 16 + int i = int (unat ch * 16 + i)"
    unfolding sint_ascii [OF assms(1)] by (simp only: of_nat_add of_nat_mult of_nat_numeral)
  have "unat ch * 16 + i < 4096"
    using assms by simp
  then have "0 \<le> int (unat ch * 16 + i) \<and> int (unat ch * 16 + i) < 4096"
    by linarith
  then show ?thesis
    unfolding font_byte_def k Let_def nat_int by (rule if_P)
qed

lemma screen_printc_cols:
  assumes "fb_ok s" "X < unat (fb_width s)" "Y < unat (fb_height s)"
    and "cx + n < 2147483648" "cy < 2147483648" "unat ch < 128" "i < 16"
  shows "screen (printc_cols n ch i att bg (of_nat cx) (of_nat cy) s) X Y =
    (if Y = cy \<and> cx \<le> X \<and> X < cx + n
     then (if bit (font_array ! (unat ch * 16 + i)) (n - 1 - (X - cx)) then att
           else if bg = noback then screen s X Y else bg)
     else screen s X Y)"
  using assms
proof (induction n arbitrary: cx s)
  case 0
  then show ?case by auto
next
  case (Suc n)
  let ?s = "if bit (font_byte s ch i) n then pixel (of_nat cx) (of_nat cy) att s
            else if bg = noback then s else pixel (of_nat cx) (of_nat cy) bg s"
  have same: "same_but_mem s ?s" by simp
  have vga: "fb_ok ?s" "X < unat (fb_width ?s)" "Y < unat (fb_height ?s)"
    using Suc.prems same_but_io_fb(3) [OF same_but_mem_io [OF same]] same_but_mem_vga [OF same]
    by simp_all
  have IH: "screen (printc_cols n ch i att bg (of_nat (Suc cx)) (of_nat cy) ?s) X Y =
    (if Y = cy \<and> Suc cx \<le> X \<and> X < Suc cx + n
     then (if bit (font_array ! (unat ch * 16 + i)) (n - 1 - (X - Suc cx)) then att
           else if bg = noback then screen ?s X Y else bg)
     else screen ?s X Y)"
    using vga Suc.prems by (intro Suc.IH) auto
  have now: "screen ?s X Y = (if cx = X \<and> cy = Y
     then (if bit (font_array ! (unat ch * 16 + i)) n then att else if bg = noback then screen s X Y else bg)
     else screen s X Y)"
    using Suc.prems by (auto simp: screen_pixel font_byte_ascii)
  have step: "printc_cols (Suc n) ch i att bg (of_nat cx) (of_nat cy) s =
        printc_cols n ch i att bg (of_nat (Suc cx)) (of_nat cy) ?s"
    by (simp add: add.commute)
  show ?case
    unfolding step IH now by auto
qed

lemma screen_printc_rows:
  assumes "fb_ok s" "X < unat (fb_width s)" "Y < unat (fb_height s)"
    and "cx + 8 < 2147483648" "cy + n < 2147483648" "unat ch < 128" "n \<le> 16"
  shows "screen (fold (\<lambda>i. printc_cols 8 ch i att bg (of_nat cx) (of_nat (cy + i))) [0..<n] s) X Y =
    (if cx \<le> X \<and> X < cx + 8 \<and> cy \<le> Y \<and> Y < cy + n
     then (if glyph_bit ch (X - cx) (Y - cy) then att else if bg = noback then screen s X Y else bg)
     else screen s X Y)"
  using assms
proof (induction n)
  case 0
  then show ?case by auto
next
  case (Suc n)
  let ?s = "fold (\<lambda>i. printc_cols 8 ch i att bg (of_nat cx) (of_nat (cy + i))) [0..<n] s"
  have same: "same_but_mem s ?s"
    by (intro same_but_mem_fold printc_cols_same)
  have vga: "fb_ok ?s" "X < unat (fb_width ?s)" "Y < unat (fb_height ?s)"
    using Suc.prems same_but_io_fb(3) [OF same_but_mem_io [OF same]] same_but_mem_vga [OF same]
    by simp_all
  have IH: "screen ?s X Y = (if cx \<le> X \<and> X < cx + 8 \<and> cy \<le> Y \<and> Y < cy + n
     then (if glyph_bit ch (X - cx) (Y - cy) then att else if bg = noback then screen s X Y else bg)
     else screen s X Y)"
    using Suc.prems by (intro Suc.IH) auto
  have row: "screen (printc_cols 8 ch n att bg (of_nat cx) (of_nat (cy + n)) ?s) X Y =
    (if Y = cy + n \<and> cx \<le> X \<and> X < cx + 8
     then (if bit (font_array ! (unat ch * 16 + n)) (8 - 1 - (X - cx)) then att
           else if bg = noback then screen ?s X Y else bg)
     else screen ?s X Y)"
    using vga Suc.prems by (intro screen_printc_cols) auto
  show ?case
    unfolding fold_upt_Suc row IH by (auto simp: glyph_bit_def)
qed

lemma printc_of_nat:
  "printc (of_nat x) (of_nat y) ch att bg s =
   write_port 0xE9 ch
     (fold (\<lambda>i. printc_cols 8 ch i att bg (of_nat (8 * x)) (of_nat (16 * y + i))) [0..<16] s)"
  by (simp add: printc_def mult.commute)

section \<open>Where drawing may write\<close>

lemma pixel_other:
  assumes "fb_ok s" "x < 2147483648" "y < 2147483648" "p \<notin> fb_region s"
  shows "mem (pixel (of_nat x) (of_nat y) c s) p = mem s p"
  using assms pixel_foot(1) [of s x y] by (auto simp: pixel_eq store32_def intro!: st32_other)

lemma printc_cols_other:
  assumes "fb_ok s" "cx + n < 2147483648" "cy < 2147483648" "p \<notin> fb_region s"
  shows "mem (printc_cols n ch i att bg (of_nat cx) (of_nat cy) s) p = mem s p"
  using assms
proof (induction n arbitrary: cx s)
  case 0
  then show ?case by auto
next
  case (Suc n)
  let ?s = "if bit (font_byte s ch i) n then pixel (of_nat cx) (of_nat cy) att s
            else if bg = noback then s else pixel (of_nat cx) (of_nat cy) bg s"
  have same: "same_but_io s ?s" by (simp add: same_but_mem_io)
  have "mem (printc_cols n ch i att bg (of_nat (Suc cx)) (of_nat cy) ?s) p = mem ?s p"
    using Suc.prems same_but_io_fb [OF same] by (intro Suc.IH) auto
  also have "mem ?s p = mem s p"
    using Suc.prems by (auto simp: pixel_other)
  finally show ?case
    by (simp add: add.commute)
qed

lemma printc_other:
  assumes "fb_ok s" "x < 65536" "y < 134217727" "p \<notin> fb_region s"
  shows "mem (printc (of_nat x) (of_nat y) ch att bg s) p = mem s p"
proof -
  let ?r = "\<lambda>n. fold (\<lambda>i. printc_cols 8 ch i att bg (of_nat (8 * x)) (of_nat (16 * y + i))) [0..<n] s"
  have "mem (?r n) p = mem s p" if "n \<le> 16" for n
    using that
  proof (induction n)
    case (Suc n)
    have same: "same_but_io s (?r n)"
      by (intro same_but_mem_io same_but_mem_fold printc_cols_same)
    have "mem (printc_cols 8 ch n att bg (of_nat (8 * x)) (of_nat (16 * y + n)) (?r n)) p = mem (?r n) p"
      using assms Suc.prems same_but_io_fb [OF same] by (intro printc_cols_other) auto
    with Suc show ?case
      unfolding fold_upt_Suc by simp
  qed simp
  from this [of 16] show ?thesis
    unfolding printc_of_nat by (simp add: write_port_def)
qed

lemma prints_other:
  assumes "fb_ok s" "x < 2147483648" "y + length str < 134217727" "p \<notin> fb_region s"
  shows "mem (prints (of_nat x) (of_nat y) str att bg s) p = mem s p"
  using assms
proof (induction str arbitrary: x y s)
  case Nil
  then show ?case by simp
next
  case (Cons c str)
  have succ: "of_nat k + 1 = (of_nat (Suc k) :: i32)" for k
    by (simp add: add.commute)
  have wide: "sint (of_nat x :: i32) \<ge> uint (fb_width s) \<longleftrightarrow> x \<ge> unat (fb_width s)"
    unfolding sint_of_nat32 [OF Cons.prems(2)] by (simp only: uint_nat of_nat_le_iff)
  show ?case
  proof (cases "c = 0 \<or> c = 10 \<or> x \<ge> unat (fb_width s)")
    case True
    then show ?thesis
      using Cons.IH [of s 0 "Suc y"] Cons.prems by (auto simp: wide succ)
  next
    case False
    let ?s = "printc (of_nat x) (of_nat y) c att bg s"
    have "x < 65536"
      using False unat_lt_u16 [of "fb_width s"] by simp
    then have "mem ?s p = mem s p"
      using Cons.prems by (intro printc_other) auto
    moreover have "mem (prints (of_nat (Suc x)) (of_nat y) str att bg ?s) p = mem ?s p"
      using Cons.prems \<open>x < 65536\<close> same_but_io_fb [OF printc_same [of s "of_nat x" "of_nat y" c att bg]]
      by (intro Cons.IH) auto
    ultimately show ?thesis
      using False by (simp add: wide succ)
  qed
qed

section \<open>Text past the right edge\<close>

lemma printc_off_screen:
  assumes "unat (fb_width s) \<le> 8 * x" "x < 65536" "y < 134217727"
  shows "mem (printc (of_nat x) (of_nat y) ch att bg s) = mem s"
proof -
  have pix: "pixel (of_nat cx) (of_nat cy) c t = t"
    if "unat (fb_width t) \<le> cx" "cx < 2147483648" "cy < 2147483648" for cx cy c and t :: "'a vga_scheme"
    using that by (simp add: pixel_eq)
  have cols: "printc_cols n ch i att bg (of_nat cx) (of_nat cy) t = t"
    if "unat (fb_width t) \<le> cx" "cx + n < 2147483648" "cy < 2147483648" for n i cx cy and t :: "'a vga_scheme"
    using that
  proof (induction n arbitrary: cx)
    case (Suc n)
    have "printc_cols (Suc n) ch i att bg (of_nat cx) (of_nat cy) t =
          printc_cols n ch i att bg (of_nat (Suc cx)) (of_nat cy) t"
      using Suc.prems by (simp add: pix add.commute)
    also have "\<dots> = t"
      using Suc.prems by (intro Suc.IH) auto
    finally show ?case .
  qed simp
  have "fold (\<lambda>i. printc_cols 8 ch i att bg (of_nat (8 * x)) (of_nat (16 * y + i))) [0..<n] s = s"
    if "n \<le> 16" for n
    using that
  proof (induction n)
    case (Suc n)
    then show ?case
      unfolding fold_upt_Suc using assms by (simp only: Suc_leD) (rule cols, auto)
  qed simp
  from this [of 16] show ?thesis
    unfolding printc_of_nat by (simp add: write_port_def)
qed

lemma prints_off_screen:
  assumes "unat (fb_width s) \<le> 8 * x" "x + length str \<le> unat (fb_width s)" "y < 134217727" "10 \<notin> set str"
  shows "mem (prints (of_nat x) (of_nat y) str att bg s) = mem s"
  using assms
proof (induction str arbitrary: x s)
  case Nil
  then show ?case by simp
next
  case (Cons c str)
  let ?s = "printc (of_nat x) (of_nat y) c att bg s"
  have x: "x < 65536"
    using Cons.prems(2) unat_lt_u16 [of "fb_width s"] by simp
  have "sint (of_nat x :: i32) = int x"
    using x by (simp add: sint_of_nat32)
  then have narrow: "\<not> sint (of_nat x :: i32) \<ge> uint (fb_width s)"
    using Cons.prems(2) by (simp only: uint_nat of_nat_le_iff) simp
  have "mem (prints (of_nat (Suc x)) (of_nat y) str att bg ?s) = mem ?s"
    using Cons.prems same_but_io_vga [OF printc_same [of s "of_nat x" "of_nat y" c att bg]]
    by (intro Cons.IH) auto
  moreover have "mem ?s = mem s"
    using Cons.prems x by (intro printc_off_screen) auto
  ultimately show ?case
    using Cons.prems(4) narrow by (simp add: add.commute)
qed

section \<open>\<open>printsl\<close> and \<open>clear\<close>\<close>

lemma printsl_loop_eq:
  fixes s :: "'a vga_scheme"
  assumes "unat len < 4294967295" "i \<le> unat len" "\<And>k. k < unat len \<Longrightarrow> str (of_nat k) \<noteq> 0"
  shows "printsl_loop str att bg len (of_nat i) xT yT s =
         Some (prints xT yT (map (\<lambda>k. str (of_nat k)) [i..<unat len]) att bg s)"
  using assms(2)
proof (induction "unat len - i" arbitrary: i xT yT s)
  case 0
  then have "i = unat len" by simp
  have "unat (of_nat i + 1 :: u32) = Suc i"
    using assms(1) \<open>i = unat len\<close> unat_of_nat32 [of "Suc i"] by (simp add: add.commute)
  then have "\<not> of_nat i + 1 \<le> len"
    using \<open>i = unat len\<close> by (simp add: word_le_nat_alt)
  then show ?case
    using \<open>i = unat len\<close> by (subst printsl_loop.simps) simp
next
  case (Suc d)
  then have i: "i < unat len" by simp
  have "unat (of_nat i + 1 :: u32) = Suc i"
    using assms(1) i unat_of_nat32 [of "Suc i"] by (simp add: add.commute)
  then have le: "of_nat i + 1 \<le> len"
    using i by (simp add: word_le_nat_alt)
  have IH: "printsl_loop str att bg len (of_nat i + 1) xT yT s =
            Some (prints xT yT (map (\<lambda>k. str (of_nat k)) [Suc i..<unat len]) att bg s)"
    for xT yT and s :: "'a vga_scheme"
    using Suc.hyps(1) [of "Suc i" xT yT s] Suc.hyps(2) i by (simp add: add.commute)
  have "map (\<lambda>k. str (of_nat k)) [i..<unat len] =
        str (of_nat i) # map (\<lambda>k. str (of_nat k)) [Suc i..<unat len]"
    using i by (simp add: upt_conv_Cons)
  then show ?case
    using le IH assms(3) [OF i] by (subst printsl_loop.simps) simp
qed

lemma clear_prefix:
  assumes "inj_at (vtr s) (fb_addr s) (4 * n)" "i < n"
  shows "load32 (fold (\<lambda>i s. store32 (fb_addr s + 4 * of_nat i) att s) [0..<n] s) (fb_addr s + 4 * of_nat i) = att"
  using assms
proof (induction n)
  case (Suc n)
  let ?t = "fold (\<lambda>i s. store32 (fb_addr s + 4 * of_nat i) att s) [0..<n] s"
  have "same_but_mem s ?t"
    by (intro same_but_mem_fold) simp
  then have t: "fb_addr ?t = fb_addr s" "vtr ?t = vtr s"
    using same_but_mem_vga same_but_mem_machine by fastforce+
  have inj: "inj_at (vtr s) (fb_addr s) (4 * n)"
    using Suc.prems(1) by (rule inj_at_mono [rotated]) simp
  show ?case
  proof (cases "i = n")
    case True
    have "inj_at (vtr s) (fb_addr s + of_nat (4 * n)) 4"
      using Suc.prems(1) by (rule inj_at_shift) simp
    then show ?thesis
      unfolding fold_upt_Suc True using load32_store32 [of ?t] by (simp add: t)
  next
    case False
    then have "i < n" using Suc.prems(2) by simp
    have "foot (vtr s) (fb_addr s + of_nat (4 * i)) 4 \<inter> foot (vtr s) (fb_addr s + of_nat (4 * n)) 4 = {}"
      using Suc.prems(1) by (rule foot_apart) (use \<open>i < n\<close> in auto)
    then have "load32 (store32 (fb_addr ?t + 4 * of_nat n) att ?t) (fb_addr s + 4 * of_nat i) =
               load32 ?t (fb_addr s + 4 * of_nat i)"
      by (intro load32_store32_other) (simp add: t)
    then show ?thesis
      unfolding fold_upt_Suc using Suc.IH [OF inj \<open>i < n\<close>] by simp
  qed
qed simp

section \<open>Properties\<close>

text \<open>A small screen for the witnesses: 16 by 32 pixels of four bytes, at one megabyte.\<close>

definition vga_sample :: vga where
  "vga_sample = \<lparr>mem = (\<lambda>_. 0), xlat = (\<lambda>_ a. a), cr3 = 0, cr2 = 0, iflag = True, idtr = (0, 0),
     inport = (\<lambda>_ _. 0), nreads = 0, outs = [], locals = (\<lambda>_. 0),
     cursorX = 0, cursorY = 0, fb_addr = 0x100000, fb_width = 16, fb_height = 32, fb_pitch = 64,
     Xmax = 2, Ymax = 2, defAtt = 0x0f, font_base = 0x200000\<rparr>"

lemma vga_sample_simps [simp]:
  "fb_width vga_sample = 16" "fb_height vga_sample = 32" "fb_pitch vga_sample = 64"
  "fb_addr vga_sample = 0x100000" "xlat vga_sample = (\<lambda>_ a. a)" "mem vga_sample = (\<lambda>_. 0)"
  "fb_bytes vga_sample = 2048"
  by (simp_all add: vga_sample_def fb_bytes_def)

lemma fb_ok_sample [simp]: "fb_ok vga_sample"
  by (simp add: fb_ok_def inj_at_id)

text \<open>
  C15. On a well-formed framebuffer \<open>pixel\<close> is a function update of the screen: the addressed
  coordinate, when it is on the screen, gets the colour, every other coordinate keeps its own, and
  a coordinate right of or below the screen changes nothing.
\<close>

theorem pixel_updates_screen:
  assumes "fb_ok s" "x < unat (fb_width s)" "y < unat (fb_height s)" "0 \<le> sint a" "0 \<le> sint b"
  shows "screen (pixel a b c s) x y = (if sint a = int x \<and> sint b = int y then c else screen s x y)"
proof -
  obtain i j where "a = of_nat i" "i < 2147483648" "sint a = int i"
    and "b = of_nat j" "j < 2147483648" "sint b = int j"
    using assms(4,5) by (metis i32_nonneg_cases)
  then show ?thesis
    using screen_pixel [OF assms(1-3), of i j c] by simp
qed

theorem pixel_updates_screen_witness:
  "screen (pixel 3 5 0xff0000 vga_sample) 3 5 = (if sint (3 :: i32) = int 3 \<and> sint (5 :: i32) = int 5
     then 0xff0000 else screen vga_sample 3 5)"
  by (rule pixel_updates_screen) simp_all

text \<open>
  C16. \<open>printc\<close> draws the font: for an ASCII character, every pixel of the 8 by 16 cell that is on
  the screen takes the text colour where the glyph has a one, and the background colour (or, for the
  transparent background, its old colour) where it has a zero; every pixel outside the cell stays.
\<close>

theorem printc_draws_glyph:
  assumes "fb_ok s" "X < unat (fb_width s)" "Y < unat (fb_height s)"
    and "x < 65536" "y < 65536" "unat ch < 128"
  shows "screen (printc (of_nat x) (of_nat y) ch att bg s) X Y =
    (if 8 * x \<le> X \<and> X < 8 * x + 8 \<and> 16 * y \<le> Y \<and> Y < 16 * y + 16
     then (if glyph_bit ch (X - 8 * x) (Y - 16 * y) then att
           else if bg = noback then screen s X Y else bg)
     else screen s X Y)"
proof -
  have "screen (write_port p v t) X Y = screen t X Y" for p v and t :: "'a vga_scheme"
    by (simp add: screen_def pixel_addr_def write_port_def)
  then show ?thesis
    unfolding printc_of_nat using assms by (simp only:) (rule screen_printc_rows, auto)
qed

theorem printc_draws_glyph_witness:
  "screen (printc (of_nat 1) (of_nat 0) 65 0xffffff 0 vga_sample) 11 4 =
    (if 8 * 1 \<le> (11 :: nat) \<and> (11 :: nat) < 8 * 1 + 8 \<and> 16 * 0 \<le> (4 :: nat) \<and> (4 :: nat) < 16 * 0 + 16
     then (if glyph_bit 65 (11 - 8 * 1) (4 - 16 * 0) then 0xffffff
           else if (0 :: u32) = noback then screen vga_sample 11 4 else 0)
     else screen vga_sample 11 4)"
  by (rule printc_draws_glyph) simp_all

text \<open>
  C17. Text output stays inside the framebuffer: \<open>prints\<close> at non-negative coordinates, whatever the
  text, changes no byte of memory outside it.
\<close>

theorem prints_stays_in_framebuffer:
  assumes "fb_ok s" "x < 2147483648" "y + length str < 134217727" "p \<notin> fb_region s"
  shows "mem (prints (of_nat x) (of_nat y) str att bg s) p = mem s p"
  using assms by (rule prints_other)

theorem prints_stays_in_framebuffer_witness:
  "mem (prints (of_nat 0) (of_nat 1) (lit ''KERNEL PANIC'') 0xff0000 0xff vga_sample) 0x100800 =
   mem vga_sample 0x100800"
  by (rule prints_stays_in_framebuffer) (simp_all add: foot_id lit_def)

text \<open>
  Lines break at \<open>fb_width\<close> character columns although only \<open>fb_width / 8\<close> fit: the part of a
  line past the right edge is neither wrapped nor drawn, memory does not change at all.
\<close>

lemma prints_past_right_edge_is_lost:
  assumes "unat (fb_width s) \<le> 8 * x" "x + length str \<le> unat (fb_width s)" "y < 134217727" "10 \<notin> set str"
  shows "mem (prints (of_nat x) (of_nat y) str att bg s) = mem s"
  using assms by (rule prints_off_screen)

lemma prints_past_right_edge_is_lost_witness:
  "mem (prints (of_nat 2) (of_nat 0) (lit ''lost'') 0xff0000 0xff vga_sample) = mem vga_sample"
  by (rule prints_past_right_edge_is_lost) (simp_all add: lit_def)

text \<open>
  \<open>printsl\<close> returns for every length but the largest, and on characters other than zero it
  draws what \<open>prints\<close> draws for the first \<open>len\<close> characters.
\<close>

lemma printsl_is_prints:
  assumes "len \<noteq> 0xFFFFFFFF" "\<And>k. k < unat len \<Longrightarrow> str (of_nat k) \<noteq> 0"
  shows "printsl x y str att bg len s =
         Some (prints x y (map (\<lambda>k. str (of_nat k)) [0..<unat len]) att bg s)"
proof -
  have "unat len \<noteq> 4294967295"
    using assms(1) by (metis of_nat_numeral of_nat_unat ucast_id)
  then have "unat len < 4294967295"
    using unat_lt_u32 [of len] by simp
  then show ?thesis
    using printsl_loop_eq [of len 0 str att bg x y s] assms(2) by (simp add: printsl_def)
qed

lemma printsl_is_prints_witness:
  "printsl 0 3 (\<lambda>_. 65) 0xff00ff 0 3 vga_sample =
   Some (prints 0 3 (map (\<lambda>k. 65) [0..<unat (3 :: u32)]) 0xff00ff 0 vga_sample)"
  by (rule printsl_is_prints) simp_all

text \<open>
  C23. \<open>clear\<close> counts its loop in bytes and stores a word per step, so it fills four times the
  framebuffer: each of the \<open>fb_bytes\<close> words from \<open>fb_addr\<close> on gets the colour, though only a quarter
  of them belong to the screen.
\<close>

theorem clear_overruns_framebuffer:
  assumes "4 dvd unat (fb_pitch s)" "unat (fb_pitch s) * unat (fb_height s) < 2147483648"
    and "inj_at (vtr s) (fb_addr s) (4 * fb_bytes s)" "i < fb_bytes s"
  shows "load32 (clear att s) (fb_addr s + 4 * of_nat i) = att"
proof -
  let ?n = "unat (fb_pitch s) * unat (fb_height s)"
  have n: "fb_bytes s = ?n"
    using assms(1) by (auto simp: fb_bytes_def)
  have "(ucast (fb_pitch s) * ucast (fb_height s) :: i32) = of_nat ?n"
    by simp
  then have count: "nat (sint (ucast (fb_pitch s) * ucast (fb_height s) :: i32)) = ?n"
    by (simp only: sint_of_nat32 [OF assms(2)] nat_int)
  have "same_but_mem s (clear att s)"
    by (rule clear_same)
  then have "vtr (clear att s) = vtr s"
    using same_but_mem_machine by fastforce
  moreover have "load32 (clear att s) (fb_addr s + 4 * of_nat i) = att"
    unfolding clear_def count using assms(3,4) n by (intro clear_prefix) auto
  ultimately show ?thesis by simp
qed

theorem clear_overruns_framebuffer_witness:
  "load32 (clear 0xabcdef vga_sample) (fb_addr vga_sample + 4 * of_nat 2047) = 0xabcdef"
  by (rule clear_overruns_framebuffer) (simp_all add: inj_at_id)

end
