(* ===== verification/Panic.thy ===== *)
theory Panic
  imports Vga
begin

text \<open>
  The kernel panic of \<open>drivers/interrupts.c\<close>. \<open>except\<close> is called from the memory manager and the
  RAM disk too, so it and the two globals it writes come before them: the \<open>panicked\<close> flag and the
  scheduler's \<open>processnum\<close> (\<open>tasks/tasks.c\<close>), which it sets to zero.
\<close>

record sys = vga +
  panicked :: bool
  processnum :: u32

text \<open>\<open>except\<close> never returns: \<open>for(;;) hlt\<close>.\<close>

definition except :: "u8 list \<Rightarrow> 'a sys_scheme \<Rightarrow> ('r, 'a sys_scheme) outcome" where
  "except str s =
     (let s1 = prints 0 0 (lit ''KERNEL PANIC - PRESS ANY KEY TO RESTART - DEBUG INFO:'') 0xff0000 0xff s;
          s2 = prints 0 1 str 0xff0000 0xff s1
      in Halted (s2\<lparr>panicked := True, processnum := 0\<rparr>))"

lemma same_but_mem_sys:
  "same_but_mem s t \<Longrightarrow> panicked t = panicked s \<and> processnum t = processnum s"
  by (auto simp: same_but_mem_def)

lemma same_but_io_sys:
  "same_but_io s t \<Longrightarrow> panicked t = panicked s \<and> processnum t = processnum s"
  by (auto simp: same_but_io_def)

lemma except_halts: "\<exists>t. except str s = Halted t \<and> panicked t \<and> processnum t = 0"
  by (simp add: except_def Let_def)

lemma except_not_Ret [simp]: "except str s \<noteq> Ret a t" "except str s \<noteq> Undef"
  by (simp_all add: except_def Let_def)

end
