(* ===== verification/Utils.thy ===== *)
theory Utils
  imports Memory "HOL-Library.Lexord"
begin

text \<open>
  \<open>misc/utils.c\<close>: byte fill and copy, number printing and C strings, over the byte memory.
  A routine that returns its destination pointer is modelled by the memory it leaves (the pointer
  is the argument itself). Loops that stop only when they meet a zero byte are
  \<open>partial_function (option)\<close>: \<^const>\<open>None\<close> is a run that never ends.
  The theorems: fill and copy against their specification, \<open>reverse\<close> as \<^const>\<open>rev\<close>, number
  printing as the digits of the value and the round trip through a parser, the string routines
  against \<open>cstring\<close>.
\<close>

section \<open>Fill and copy\<close>

fun memset_loop :: "xlation \<Rightarrow> memory \<Rightarrow> u64 \<Rightarrow> u8 \<Rightarrow> nat \<Rightarrow> memory" where
  "memset_loop tr m ptr val 0 = m"
| "memset_loop tr m ptr val (Suc len) = memset_loop tr (st8 tr m ptr val) (ptr + 1) val len"

definition memset :: "xlation \<Rightarrow> memory \<Rightarrow> u64 \<Rightarrow> u8 \<Rightarrow> u64 \<Rightarrow> memory" where
  "memset tr m dest val len = memset_loop tr m dest val (unat len)"

fun memcpy_loop :: "xlation \<Rightarrow> memory \<Rightarrow> u64 \<Rightarrow> u64 \<Rightarrow> nat \<Rightarrow> memory" where
  "memcpy_loop tr m d s 0 = m"
| "memcpy_loop tr m d s (Suc len) = memcpy_loop tr (st8 tr m d (ld8 tr m s)) (d + 1) (s + 1) len"

definition memcpy :: "xlation \<Rightarrow> memory \<Rightarrow> u64 \<Rightarrow> u64 \<Rightarrow> u64 \<Rightarrow> memory" where
  "memcpy tr m dest src len = memcpy_loop tr m dest src (unat len)"

section \<open>Small helpers\<close>

definition c_abs :: "i32 \<Rightarrow> i32" where
  "c_abs i = (if sint i < 0 then - i else i)"

definition c_max :: "u64 \<Rightarrow> u64 \<Rightarrow> u64" where
  "c_max a b = (if a > b then a else b)"

definition c_min :: "u64 \<Rightarrow> u64 \<Rightarrow> u64" where
  "c_min a b = (if a < b then a else b)"

definition swap :: "xlation \<Rightarrow> memory \<Rightarrow> u64 \<Rightarrow> u64 \<Rightarrow> memory" where
  "swap tr m x y = (let t = ld8 tr m x in st8 tr (st8 tr m x (ld8 tr m y)) y t)"

text \<open>
  The indices are C \<open>int\<close>s; \<open>i < j\<close> bounds both updates, so they are exact integers here.
\<close>

function reverse :: "xlation \<Rightarrow> memory \<Rightarrow> u64 \<Rightarrow> int \<Rightarrow> int \<Rightarrow> memory" where
  "reverse tr m buffer i j =
     (if i < j
      then reverse tr (swap tr m (buffer + word_of_int i) (buffer + word_of_int j)) buffer (i + 1) (j - 1)
      else m)"
  by pat_completeness auto
termination
  by (relation "measure (\<lambda>(tr, m, b, i, j). nat (j - i))") auto

declare reverse.simps [simp del]

section \<open>Numbers to text\<close>

text \<open>
  \<open>char\<close> arithmetic of both printers: \<open>65 + (r - 10)\<close> from ten on, \<open>48 + r\<close> below.
\<close>

definition digit_char :: "int \<Rightarrow> u8" where
  "digit_char r = (if r \<ge> 10 then word_of_int (65 + (r - 10)) else word_of_int (48 + r))"

text \<open>
  The digit loops. The routines reach them only with a base of 2 to 32; the guard on the base
  states this for the termination argument. The index counts at most 64 digits.
\<close>

function uitoa_loop :: "xlation \<Rightarrow> memory \<Rightarrow> u64 \<Rightarrow> u64 \<Rightarrow> u64 \<Rightarrow> nat \<Rightarrow> memory \<times> nat" where
  "uitoa_loop tr m buffer base value i =
     (if value = 0 \<or> base < 2 then (m, i)
      else let r = uint (value mod base)
           in uitoa_loop tr (st8 tr m (buffer + of_nat i) (digit_char r)) buffer base (value div base) (Suc i))"
  by pat_completeness auto
termination
proof (relation "measure (\<lambda>(tr, m, buffer, base, value, i). unat value)")
  fix tr :: xlation and m :: memory and buffer base v :: u64 and i :: nat and r :: int
  assume "\<not> (v = 0 \<or> base < 2)"
  then have "0 < unat v" "1 < unat base"
    by (simp_all add: word_less_nat_alt unat_gt_0)
  then show "((tr, st8 tr m (buffer + of_nat i) (digit_char r), buffer, base, v div base, Suc i),
              (tr, m, buffer, base, v, i)) \<in> measure (\<lambda>(tr, m, buffer, base, v, i). unat v)"
    by (simp add: unat_div_distrib)
qed simp

declare uitoa_loop.simps [simp del]

definition uitoa :: "xlation \<Rightarrow> memory \<Rightarrow> u64 \<Rightarrow> u64 \<Rightarrow> i32 \<Rightarrow> memory" where
  "uitoa tr m value buffer base =
     (if sint base < 2 \<or> sint base > 32 then m
      else let (m1, i1) = uitoa_loop tr m buffer (scast base) value 0;
               (m2, i2) = (if i1 = 0 then (st8 tr m1 buffer 48, 1) else (m1, i1));
               m3 = st8 tr m2 (buffer + of_nat i2) 0
           in reverse tr m3 buffer 0 (int i2 - 1))"

text \<open>\<open>n % base\<close> and \<open>n / base\<close> on a signed \<open>long\<close> round towards zero.\<close>

function itoa_loop :: "xlation \<Rightarrow> memory \<Rightarrow> u64 \<Rightarrow> int \<Rightarrow> int \<Rightarrow> nat \<Rightarrow> memory \<times> nat" where
  "itoa_loop tr m buffer base n i =
     (if n = 0 \<or> base < 2 then (m, i)
      else let r = n smod base
           in itoa_loop tr (st8 tr m (buffer + of_nat i) (digit_char r)) buffer base (n sdiv base) (Suc i))"
  by pat_completeness auto
termination
proof (relation "measure (\<lambda>(tr, m, buffer, base, n, i). nat \<bar>n\<bar>)")
  fix tr :: xlation and m :: memory and buffer :: u64 and base n :: int and i :: nat and r :: int
  assume "\<not> (n = 0 \<or> base < 2)"
  then have "0 < \<bar>n\<bar>" "1 < \<bar>base\<bar>" by auto
  then have "\<bar>n\<bar> div \<bar>base\<bar> < \<bar>n\<bar>" "0 \<le> \<bar>n\<bar> div \<bar>base\<bar>"
    by (auto intro: int_div_less_self simp: pos_imp_zdiv_nonneg_iff)
  then have "\<bar>n sdiv base\<bar> < \<bar>n\<bar>"
    by (auto simp: signed_divide_int_def abs_mult sgn_if)
  then show "((tr, st8 tr m (buffer + of_nat i) (digit_char r), buffer, base, n sdiv base, Suc i),
              (tr, m, buffer, base, n, i)) \<in> measure (\<lambda>(tr, m, buffer, base, n, i). nat \<bar>n\<bar>)"
    by simp
qed simp

declare itoa_loop.simps [simp del]

text \<open>\<open>long n = abs(value)\<close>: \<open>abs\<close> takes an \<open>int\<close>, so the 64-bit value is cut to 32 bits first.\<close>

definition itoa :: "xlation \<Rightarrow> memory \<Rightarrow> i64 \<Rightarrow> u64 \<Rightarrow> i32 \<Rightarrow> memory" where
  "itoa tr m value buffer base =
     (if sint base < 2 \<or> sint base > 32 then m
      else let n = sint (c_abs (ucast value));
               (m1, i1) = itoa_loop tr m buffer (sint base) n 0;
               (m2, i2) = (if i1 = 0 then (st8 tr m1 buffer 48, 1) else (m1, i1));
               (m3, i3) = (if sint value < 0 \<and> sint base = 10
                           then (st8 tr m2 (buffer + of_nat i2) 45, Suc i2) else (m2, i2));
               m4 = st8 tr m3 (buffer + of_nat i3) 0
           in reverse tr m4 buffer 0 (int i3 - 1))"

section \<open>C strings\<close>

partial_function (option) strlen_from :: "xlation \<Rightarrow> memory \<Rightarrow> u64 \<Rightarrow> u64 \<Rightarrow> u64 option" where
  "strlen_from tr m str i =
     (if ld8 tr m (str + i) = 0 then Some i else strlen_from tr m str (i + 1))"

definition strlen :: "xlation \<Rightarrow> memory \<Rightarrow> u64 \<Rightarrow> u64 option" where
  "strlen tr m str = strlen_from tr m str 0"

definition strcpy :: "xlation \<Rightarrow> memory \<Rightarrow> u64 \<Rightarrow> u64 \<Rightarrow> memory option" where
  "strcpy tr m dest src = map_option (\<lambda>n. memcpy tr m dest src (n + 1)) (strlen tr m src)"

definition strcat :: "xlation \<Rightarrow> memory \<Rightarrow> u64 \<Rightarrow> u64 \<Rightarrow> memory option" where
  "strcat tr m dest src =
     Option.bind (strlen tr m dest) (\<lambda>n. strcpy tr m (dest + n) src)"

partial_function (option) strcmp :: "xlation \<Rightarrow> memory \<Rightarrow> u64 \<Rightarrow> u64 \<Rightarrow> int option" where
  "strcmp tr m s1 s2 =
     (if ld8 tr m s1 \<noteq> 0 \<and> ld8 tr m s1 = ld8 tr m s2
      then strcmp tr m (s1 + 1) (s2 + 1)
      else Some (uint (ld8 tr m s1) - uint (ld8 tr m s2)))"

section \<open>Fill and copy: what they leave\<close>

lemma memset_loop_eq: "memset_loop tr m a v n p = (if p \<in> foot tr a n then v else m p)"
  by (induction n arbitrary: m a) (auto simp: foot_Suc_front st8_def)

lemma memset_eq [mem_simps]:
  "memset tr m a v len p = (if p \<in> foot tr a (unat len) then v else m p)"
  by (simp add: memset_def memset_loop_eq)

lemma ld8_memset: "ld8 tr (memset tr m a v len) b = (if tr b \<in> foot tr a (unat len) then v else ld8 tr m b)"
  by (simp add: ld8_def memset_eq)

lemma memcpy_loop_eq:
  assumes "foot tr d n \<inter> foot tr s n = {}"
  shows "memcpy_loop tr m d s n = st_bytes tr m d (ld_bytes tr m s n)"
  using assms
proof (induction n arbitrary: m d s)
  case 0
  then show ?case by simp
next
  case (Suc n)
  let ?m = "st8 tr m d (ld8 tr m s)"
  have "ld_bytes tr ?m (s + 1) n = ld_bytes tr m (s + 1) n"
    using Suc.prems by (intro ld_bytes_cong) (auto simp: st8_def foot_Suc_front)
  moreover have "foot tr (d + 1) n \<inter> foot tr (s + 1) n = {}"
    using Suc.prems by (auto simp: foot_Suc_front)
  ultimately show ?case
    using Suc.IH [of "d + 1" "s + 1" ?m] by (simp add: ld_bytes_Suc)
qed

lemma memcpy_eq:
  "foot tr d (unat len) \<inter> foot tr s (unat len) = {} \<Longrightarrow>
   memcpy tr m d s len = st_bytes tr m d (ld_bytes tr m s (unat len))"
  by (simp add: memcpy_def memcpy_loop_eq)

lemma memcpy_loop_other: "p \<notin> foot tr d n \<Longrightarrow> memcpy_loop tr m d s n p = m p"
  by (induction n arbitrary: m d s) (auto simp: foot_Suc_front st8_def)

lemma memcpy_other: "p \<notin> foot tr d (unat len) \<Longrightarrow> memcpy tr m d s len p = m p"
  by (simp add: memcpy_def memcpy_loop_other)

lemma ld_bytes_memcpy:
  assumes "foot tr d (unat len) \<inter> foot tr s (unat len) = {}" and "inj_at tr d (unat len)"
  shows "ld_bytes tr (memcpy tr m d s len) d (unat len) = ld_bytes tr m s (unat len)"
  using ld_bytes_st_bytes [of tr d "ld_bytes tr m s (unat len)" m] assms by (simp add: memcpy_eq)

section \<open>\<open>reverse\<close> is list reversal\<close>

lemma ld8_swap:
  "ld8 tr (swap tr m x y) a =
     (if tr a = tr y then ld8 tr m x else if tr a = tr x then ld8 tr m y else ld8 tr m a)"
  by (simp add: swap_def ld8_st8 Let_def)

lemma swap_other: "p \<noteq> tr x \<Longrightarrow> p \<noteq> tr y \<Longrightarrow> swap tr m x y p = m p"
  by (simp add: swap_def st8_def Let_def)

lemma inj_at_int:
  assumes "inj_at tr a n" "0 \<le> x" "x < int n" "0 \<le> y" "y < int n"
  shows "tr (a + word_of_int x) = tr (a + word_of_int y) \<longleftrightarrow> x = y"
  using inj_at_eq [OF assms(1), of "nat x" "nat y"] assms(2-)
  by (simp add: nat_less_iff eq_nat_nat_iff)

lemma ld8_reverse:
  assumes "inj_at tr a n" "0 \<le> i" "j < int n" "0 \<le> p" "p < int n"
  shows "ld8 tr (reverse tr m a i j) (a + word_of_int p) =
         ld8 tr m (a + word_of_int (if i \<le> p \<and> p \<le> j then i + j - p else p))"
  using assms
proof (induction tr m a i j rule: reverse.induct)
  case (1 tr m a i j)
  show ?case
  proof (cases "i < j")
    case False
    then have "reverse tr m a i j = m"
      by (simp add: reverse.simps [of tr m a i j])
    with False show ?thesis
      by (cases "i = j") auto
  next
    case True
    let ?m = "swap tr m (a + word_of_int i) (a + word_of_int j)"
    let ?q = "if i + 1 \<le> p \<and> p \<le> j - 1 then i + j - p else p"
    have "ld8 tr (reverse tr m a i j) (a + word_of_int p) = ld8 tr ?m (a + word_of_int ?q)"
      using "1.IH" [OF True] "1.prems" True by (simp add: reverse.simps [of tr m a i j])
    also have "\<dots> = ld8 tr m (a + word_of_int (if i \<le> p \<and> p \<le> j then i + j - p else p))"
      using "1.prems" True
      by (cases "p = i"; cases "p = j") (auto simp: ld8_swap inj_at_int)
    finally show ?thesis .
  qed
qed

lemma reverse_other:
  assumes "p \<notin> foot tr a n" "0 \<le> i" "j < int n"
  shows "reverse tr m a i j p = m p"
  using assms
proof (induction tr m a i j rule: reverse.induct)
  case (1 tr m a i j)
  have "p \<noteq> tr (a + word_of_int x)" if "0 \<le> x" "x < int n" for x
    using in_foot [of "nat x" n tr a] that "1.prems"(1)
    by (auto simp: nat_less_iff)
  then have "swap tr m (a + word_of_int i) (a + word_of_int j) p = m p" if "i < j"
    using that "1.prems" by (simp add: swap_other)
  then show ?case
    using "1.IH" "1.prems" by (simp add: reverse.simps [of tr m a i j])
qed

lemma ld_bytes_reverse:
  assumes "inj_at tr a n"
  shows "ld_bytes tr (reverse tr m a 0 (int n - 1)) a n = rev (ld_bytes tr m a n)"
proof (rule nth_equalityI)
  fix k
  assume "k < length (ld_bytes tr (reverse tr m a 0 (int n - 1)) a n)"
  then have k: "k < n" by simp
  then have "word_of_int (int n - 1 - int k) = (of_nat (n - Suc k) :: u64)"
    by (simp add: of_nat_diff)
  then show "ld_bytes tr (reverse tr m a 0 (int n - 1)) a n ! k = rev (ld_bytes tr m a n) ! k"
    using k ld8_reverse [OF assms, of 0 "int n - 1" "int k" m]
    by (simp add: nth_ld_bytes rev_nth del: of_int_diff)
qed simp

section \<open>Digits\<close>

text \<open>The digits of a number, least significant first, and its text in a base.\<close>

fun rdigits :: "nat \<Rightarrow> nat \<Rightarrow> nat list" where
  "rdigits b n = (if n = 0 \<or> b < 2 then [] else n mod b # rdigits b (n div b))"

declare rdigits.simps [simp del]

definition to_base :: "nat \<Rightarrow> nat \<Rightarrow> u8 list" where
  "to_base b n = (if n = 0 then [48] else map (\<lambda>d. digit_char (int d)) (rev (rdigits b n)))"

definition digit_val :: "u8 \<Rightarrow> nat" where
  "digit_val c = (if unat c \<ge> 65 then unat c - 55 else unat c - 48)"

definition parse_base :: "nat \<Rightarrow> u8 list \<Rightarrow> nat" where
  "parse_base b t = foldl (\<lambda>a c. a * b + digit_val c) 0 t"

lemma rdigits_0 [simp]: "rdigits b 0 = []"
  by (simp add: rdigits.simps)

lemma rdigits_less: "d \<in> set (rdigits b n) \<Longrightarrow> d < b"
proof (induction b n rule: rdigits.induct)
  case (1 b n)
  then show ?case
    by (cases "n = 0 \<or> b < 2") (auto simp: rdigits.simps [of b n])
qed

lemma length_rdigits: "n < b ^ k \<Longrightarrow> length (rdigits b n) \<le> k"
proof (induction k arbitrary: n)
  case 0
  then show ?case by simp
next
  case (Suc k)
  show ?case
  proof (cases "n = 0 \<or> b < 2")
    case True
    then show ?thesis by (simp add: rdigits.simps [of b n])
  next
    case False
    then have "n div b < b ^ k"
      using Suc.prems by (simp add: less_mult_imp_div_less mult.commute)
    then have "length (rdigits b (n div b)) \<le> k" by (rule Suc.IH)
    with False show ?thesis by (simp add: rdigits.simps [of b n])
  qed
qed

lemma rdigits_value: "2 \<le> b \<Longrightarrow> foldr (\<lambda>d a. a * b + d) (rdigits b n) 0 = n"
proof (induction b n rule: rdigits.induct)
  case (1 b n)
  then show ?case
    by (cases "n = 0") (simp_all add: rdigits.simps [of b n])
qed

lemma digit_val_char: "d < 32 \<Longrightarrow> digit_val (digit_char (int d)) = d"
proof -
  assume d: "d < 32"
  have "unat (word_of_int (int k) :: u8) = k" if "k < 256" for k
    using that by (simp add: unat_of_nat take_bit_nat_eq_self)
  from this [of "55 + d"] this [of "48 + d"] d show ?thesis
    by (auto simp: digit_val_def digit_char_def add.commute)
qed

lemma digit_char_nonzero: "d < 32 \<Longrightarrow> digit_char (int d) \<noteq> 0"
proof -
  assume "d < 32"
  moreover have "word_of_int (int k) \<noteq> (0 :: u8)" if "0 < k" "k < 256" for k
    using that by (simp add: word_of_nat_eq_0_iff nat_dvd_not_less)
  from this [of "55 + d"] this [of "48 + d"] \<open>d < 32\<close> show ?thesis
    by (auto simp: digit_char_def add.commute)
qed

lemma parse_to_base:
  assumes "2 \<le> b" "b \<le> 32"
  shows "parse_base b (to_base b n) = n"
proof (cases "n = 0")
  case True
  then show ?thesis by (simp add: parse_base_def to_base_def digit_val_def)
next
  case False
  have "digit_val (digit_char (int d)) = d" if "d \<in> set (rdigits b n)" for d
    using rdigits_less [OF that] assms by (simp add: digit_val_char)
  then have "foldr (\<lambda>d a. a * b + digit_val (digit_char (int d))) (rdigits b n) 0 =
             foldr (\<lambda>d a. a * b + d) (rdigits b n) 0"
    by (intro foldr_cong) auto
  then show ?thesis
    using False rdigits_value [OF assms(1), of n]
    by (simp add: parse_base_def to_base_def foldl_conv_foldr rev_map foldr_map o_def)
qed

lemma to_base_no_nul:
  assumes "2 \<le> b" "b \<le> 32"
  shows "0 \<notin> set (to_base b n)"
proof -
  have "digit_char (int d) \<noteq> 0" if "d \<in> set (rdigits b n)" for d
    using rdigits_less [OF that] assms by (simp add: digit_char_nonzero)
  then show ?thesis
    by (auto simp: to_base_def)
qed

lemma length_to_base: "0 < k \<Longrightarrow> n < b ^ k \<Longrightarrow> length (to_base b n) \<le> k"
  using length_rdigits [of n b k] by (simp add: to_base_def)

lemma length_to_base_pos: "2 \<le> b \<Longrightarrow> 0 < length (to_base b n)"
  by (simp add: to_base_def rdigits.simps [of b n])

section \<open>What the printers leave in the buffer\<close>

lemma uitoa_loop_eq:
  assumes "2 \<le> unat base"
  shows "uitoa_loop tr m buffer base v i =
    (st_bytes tr m (buffer + of_nat i) (map (\<lambda>d. digit_char (int d)) (rdigits (unat base) (unat v))),
     i + length (rdigits (unat base) (unat v)))"
  using assms
proof (induction tr m buffer base v i rule: uitoa_loop.induct)
  case (1 tr m buffer base v i)
  have base: "\<not> base < 2"
    using "1.prems" by (simp add: word_less_nat_alt)
  show ?case
  proof (cases "v = 0")
    case True
    then show ?thesis
      by (subst uitoa_loop.simps) simp
  next
    case False
    then have "unat v \<noteq> 0" by (simp add: unat_0_iff)
    moreover have "uint (v mod base) = int (unat v mod unat base)"
      by (simp add: uint_nat unat_mod_distrib)
    ultimately show ?thesis
      using "1.IH" [OF _ refl] "1.prems" False base
      by (simp add: uitoa_loop.simps [of tr m buffer base v i] rdigits.simps [of "unat base" "unat v"]
        unat_div_distrib ac_simps Let_def)
  qed
qed

lemma st_bytes_append:
  "st_bytes tr m a (xs @ ys) = st_bytes tr (st_bytes tr m a xs) (a + of_nat (length xs)) ys"
  by (induction xs arbitrary: m a) (simp_all add: add.assoc)

lemma ld_bytes_snoc: "ld_bytes tr m a (Suc n) = ld_bytes tr m a n @ [ld8 tr m (a + of_nat n)]"
  by (simp add: ld_bytes_def)

text \<open>
  Both printers end by turning a least-significant-first run of characters around in place: the
  buffer then holds the text and its terminator, and nothing outside changed.
\<close>

lemma reversed_text:
  assumes inj: "inj_at tr a (Suc (length t))"
  shows "ld_bytes tr (reverse tr (st_bytes tr m a (rev t @ [0])) a 0 (int (length t) - 1)) a (Suc (length t))
         = t @ [0]"
proof -
  let ?n = "length t" and ?m = "st_bytes tr m a (rev t @ [0])"
  let ?r = "reverse tr ?m a 0 (int ?n - 1)"
  have all: "ld_bytes tr ?m a (Suc ?n) = rev t @ [0]"
    using ld_bytes_st_bytes [of tr a "rev t @ [0]" m] inj by simp
  then have "ld_bytes tr ?m a ?n = rev t" and nul: "ld8 tr ?m (a + of_nat ?n) = 0"
    by (simp_all add: ld_bytes_snoc)
  moreover have "inj_at tr a ?n"
    using inj by (rule inj_at_mono [rotated]) simp
  ultimately have "ld_bytes tr ?r a ?n = t"
    by (simp add: ld_bytes_reverse)
  moreover have "ld8 tr ?r (a + of_nat ?n) = ld8 tr ?m (a + of_nat ?n)"
    using ld8_reverse [OF inj, of 0 "int ?n - 1" "int ?n" ?m] by simp
  ultimately show ?thesis
    using nul by (simp add: ld_bytes_snoc)
qed

lemma reversed_text_other:
  assumes "p \<notin> foot tr a (Suc (length t))"
  shows "reverse tr (st_bytes tr m a (rev t @ [0])) a 0 (int (length t) - 1) p = m p"
proof -
  have "p \<notin> foot tr a (length t)"
    using assms foot_mono [of "length t" "Suc (length t)" tr a] by auto
  then show ?thesis
    using assms by (simp add: reverse_other [of p tr a "length t"] st_bytes_other)
qed

lemma sint_base_range:
  fixes base :: i32
  assumes "2 \<le> sint base" "sint base \<le> 32"
  shows "unat (scast base :: u64) = nat (sint base)"
proof -
  have "uint (scast base :: u64) = sint base"
    using assms by (simp only: scast_eq uint_word_of_int) simp
  then show ?thesis
    by (simp add: unat_eq_nat_uint)
qed

lemma uitoa_eq:
  assumes "2 \<le> sint base" "sint base \<le> 32"
  shows "uitoa tr m v buffer base =
    (let t = to_base (nat (sint base)) (unat v)
     in reverse tr (st_bytes tr m buffer (rev t @ [0])) buffer 0 (int (length t) - 1))"
proof -
  let ?b = "nat (sint base)"
  have b: "unat (scast base :: u64) = ?b" "2 \<le> ?b"
    using assms by (simp_all add: sint_base_range)
  let ?ds = "map (\<lambda>d. digit_char (int d)) (rdigits ?b (unat v))"
  have loop: "uitoa_loop tr m buffer (scast base) v 0 = (st_bytes tr m buffer ?ds, length ?ds)"
    using b by (simp add: uitoa_loop_eq)
  have range: "\<not> (sint base < 2 \<or> sint base > 32)"
    using assms by simp
  show ?thesis
  proof (cases "unat v = 0")
    case True
    then have "v = 0" by (simp add: unat_0_iff)
    have "uitoa_loop tr m buffer (scast base) v 0 = (m, 0)"
      using loop True by simp
    then show ?thesis
      unfolding uitoa_def if_not_P [OF range] by (simp add: True to_base_def)
  next
    case False
    then have ne: "rdigits ?b (unat v) \<noteq> []"
      using b(2) by (simp add: rdigits.simps [of ?b "unat v"])
    have t: "rev (to_base ?b (unat v)) = ?ds"
      using False by (simp add: to_base_def rev_map)
    then have len: "length (to_base ?b (unat v)) = length ?ds"
      by (metis length_rev)
    show ?thesis
      unfolding uitoa_def if_not_P [OF range] loop Let_def t len st_bytes_append
      using ne by simp
  qed
qed

section \<open>C strings: what the routines compute\<close>

text \<open>The memory at \<open>a\<close> holds the characters \<open>cs\<close>, none of them zero, and then a zero byte.\<close>

definition cstring :: "xlation \<Rightarrow> memory \<Rightarrow> u64 \<Rightarrow> u8 list \<Rightarrow> bool" where
  "cstring tr m a cs \<longleftrightarrow> 0 \<notin> set cs \<and> ld_bytes tr m a (Suc (length cs)) = cs @ [0]"

lemma cstring_Nil: "cstring tr m a [] \<longleftrightarrow> ld8 tr m a = 0"
  by (simp add: cstring_def ld_bytes_Suc)

lemma cstring_Cons:
  "cstring tr m a (c # cs) \<longleftrightarrow> c \<noteq> 0 \<and> ld8 tr m a = c \<and> cstring tr m (a + 1) cs"
  by (auto simp: cstring_def ld_bytes_Suc [of _ _ _ "Suc _"])

lemma cstring_cong:
  "(\<And>p. p \<in> foot tr a (Suc (length cs)) \<Longrightarrow> m p = m' p) \<Longrightarrow> cstring tr m a cs = cstring tr m' a cs"
  unfolding cstring_def by (metis ld_bytes_cong)

lemma strlen_from_eq: "cstring tr m (str + i) cs \<Longrightarrow> strlen_from tr m str i = Some (i + of_nat (length cs))"
proof (induction cs arbitrary: i)
  case Nil
  then show ?case by (simp add: strlen_from.simps cstring_Nil)
next
  case (Cons c cs)
  then show ?case
    by (subst strlen_from.simps) (simp add: cstring_Cons add.assoc)
qed

lemma strlen_eq: "cstring tr m str cs \<Longrightarrow> strlen tr m str = Some (of_nat (length cs))"
  using strlen_from_eq [of tr m str 0 cs] by (simp add: strlen_def)

lemma strcmp_eq:
  assumes "cstring tr m a xs" "cstring tr m b ys"
  shows "\<exists>r. strcmp tr m a b = Some r \<and> (r = 0 \<longleftrightarrow> xs = ys) \<and> (r < 0 \<longleftrightarrow> (xs, ys) \<in> lexord {(c, d). c < d})"
  using assms
proof (induction xs arbitrary: a b ys)
  case Nil
  then show ?case
    by (cases ys) (auto simp: strcmp.simps [of tr m a b] cstring_Nil cstring_Cons uint_0_iff
      dest: uint_0_iff [THEN iffD1] intro: order_neq_le_trans)
next
  case (Cons x xs)
  show ?case
  proof (cases ys)
    case Nil
    with Cons.prems show ?thesis
      by (auto simp: strcmp.simps [of tr m a b] cstring_Nil cstring_Cons uint_0_iff not_less)
  next
    case (Cons y zs)
    show ?thesis
    proof (cases "x = y")
      case True
      with Cons.IH [of "a + 1" "b + 1" zs] Cons.prems \<open>ys = y # zs\<close> show ?thesis
        by (simp add: strcmp.simps [of tr m a b] cstring_Cons)
    next
      case False
      with Cons.prems \<open>ys = y # zs\<close> show ?thesis
        by (auto simp: strcmp.simps [of tr m a b] cstring_Cons word_less_def dest: unsigned_word_eqI)
    qed
  qed
qed

lemma strcpy_cstring:
  assumes src: "cstring tr m src cs"
    and apart: "foot tr dest (Suc (length cs)) \<inter> foot tr src (Suc (length cs)) = {}"
    and inj: "inj_at tr dest (Suc (length cs))"
    and len: "Suc (length cs) < 18446744073709551616"
  shows "strcpy tr m dest src = Some (st_bytes tr m dest (cs @ [0]))"
proof -
  have "unat (of_nat (length cs) + 1 :: u64) = Suc (length cs)"
    using unat_of_nat64 [OF len] by (simp add: add.commute)
  then show ?thesis
    using assms by (simp add: strcpy_def strlen_eq [OF src] memcpy_eq cstring_def)
qed

lemma ld_bytes_add: "ld_bytes tr m a (i + n) = ld_bytes tr m a i @ ld_bytes tr m (a + of_nat i) n"
proof (induction n)
  case (Suc n)
  then show ?case
    using ld_bytes_snoc [of tr m a "i + n"] by (simp add: ld_bytes_snoc add.assoc)
qed simp

section \<open>\<open>itoa\<close>\<close>

lemma itoa_loop_eq:
  assumes "2 \<le> base"
  shows "itoa_loop tr m buffer base (int n) i =
    (st_bytes tr m (buffer + of_nat i) (map (\<lambda>d. digit_char (int d)) (rdigits (nat base) n)),
     i + length (rdigits (nat base) n))"
proof (induction n arbitrary: m i rule: less_induct)
  case (less n)
  show ?case
  proof (cases "n = 0")
    case True
    then show ?thesis
      by (subst itoa_loop.simps) simp
  next
    case False
    obtain b where b: "base = int b" "2 \<le> b"
      using assms by (metis nat_0_le nat_le_iff nat_numeral order_trans zero_le_numeral le_nat_iff)
    have "n div b < n"
      using False b by simp
    moreover have "int n smod base = int (n mod b)" "int n sdiv base = int (n div b)"
      using False b by (simp_all add: signed_modulo_int_def signed_divide_int_def zmod_int zdiv_int)
    ultimately show ?thesis
      using less.IH [of "n div b"] False b
      by (simp add: itoa_loop.simps [of tr m buffer "int b" "int n"] rdigits.simps [of b n] ac_simps Let_def)
  qed
qed

text \<open>The text \<open>itoa\<close> is meant to print: a sign in base ten, then the digits of the magnitude.\<close>

definition itoa_text :: "nat \<Rightarrow> int \<Rightarrow> u8 list" where
  "itoa_text b n = (if n < 0 \<and> b = 10 then [45] else []) @ to_base b (nat \<bar>n\<bar>)"

lemma sint_abs32:
  assumes "- 2147483648 < sint (i :: i32)"
  shows "sint (c_abs i) = \<bar>sint i\<bar>"
proof -
  have "sint i < 2147483648"
    using sint_lt [of i] by simp
  then have "sint (- i) = - sint i"
    using assms by (simp add: sint_word_minus signed_take_bit_int_eq_self)
  then show ?thesis
    by (simp add: c_abs_def)
qed

lemma sint_low_word:
  assumes "- 2147483648 \<le> sint (v :: i64)" "sint v < 2147483648"
  shows "sint (ucast v :: i32) = sint v"
proof -
  have "(ucast v :: i32) = word_of_int (sint v)"
    by (rule bit_word_eqI) (simp add: bit_ucast_iff bit_sint_iff bit_simps)
  then have "sint (ucast v :: i32) = signed_take_bit 31 (sint v)"
    by (simp only: sint_sbintrunc') simp
  then show ?thesis
    using assms by (simp add: signed_take_bit_int_eq_self)
qed

lemma itoa_eq:
  assumes base: "2 \<le> sint base" "sint base \<le> 32"
    and fits: "- 2147483648 < sint v" "sint v < 2147483648"
  shows "itoa tr m v buffer base =
    (let t = itoa_text (nat (sint base)) (sint v)
     in reverse tr (st_bytes tr m buffer (rev t @ [0])) buffer 0 (int (length t) - 1))"
proof -
  let ?b = "nat (sint base)" and ?n = "nat \<bar>sint v\<bar>"
  let ?ds = "map (\<lambda>d. digit_char (int d)) (rdigits ?b ?n)"
  have n: "sint (c_abs (ucast v)) = int ?n"
    using fits by (simp add: sint_abs32 sint_low_word)
  have loop: "itoa_loop tr m buffer (sint base) (int ?n) 0 = (st_bytes tr m buffer ?ds, length ?ds)"
    using base by (simp only: itoa_loop_eq) simp
  have range: "\<not> (sint base < 2 \<or> sint base > 32)"
    using base by simp
  have ten: "?b = 10 \<longleftrightarrow> sint base = 10"
    by auto
  have rt: "rev (itoa_text ?b (sint v)) = rev (to_base ?b ?n) @ (if sint v < 0 \<and> sint base = 10 then [45] else [])"
    by (simp add: itoa_text_def ten)
  have len: "length (itoa_text ?b (sint v)) =
      (if sint v < 0 \<and> sint base = 10 then Suc (length (to_base ?b ?n)) else length (to_base ?b ?n))"
    by (simp add: itoa_text_def ten)
  show ?thesis
  proof (cases "?n = 0")
    case True
    then show ?thesis
      unfolding itoa_def if_not_P [OF range] n loop Let_def rt len
      by (simp add: to_base_def)
  next
    case False
    then have ne: "rdigits ?b ?n \<noteq> []"
      using base by (subst rdigits.simps) simp
    have t: "rev (to_base ?b ?n) = ?ds"
      using False by (simp add: to_base_def rev_map)
    then have tl: "length (to_base ?b ?n) = length ?ds"
      by (metis length_rev)
    show ?thesis
      unfolding itoa_def if_not_P [OF range] n loop Let_def rt len t tl st_bytes_append
      using ne by (simp add: add.commute [of 1])
  qed
qed

section \<open>Properties\<close>

lemma to_base_word_bound:
  assumes "2 \<le> b"
  shows "length (to_base b (unat (v :: u64))) \<le> 64"
proof -
  have "unat v < 2 ^ 64"
    using unat_lt_u64 [of v] by simp
  also have "(2::nat) ^ 64 \<le> b ^ 64"
    using assms by (rule power_mono) simp
  finally show ?thesis
    by (rule length_to_base [rotated]) simp
qed

text \<open>
  C20. \<open>uitoa\<close> leaves a C string in the buffer that reads back, in the same base, as the value it
  was given, for every base the routine accepts; it takes at most 64 characters, and no byte
  outside the 65 bytes from the buffer on changes.
\<close>

theorem uitoa_round_trip:
  assumes "2 \<le> sint base" and "sint base \<le> 32" and "inj_at tr buffer 65"
  shows "\<exists>t. cstring tr (uitoa tr m v buffer base) buffer t \<and> length t \<le> 64 \<and>
             parse_base (nat (sint base)) t = unat v \<and>
             (\<forall>p. p \<notin> foot tr buffer 65 \<longrightarrow> uitoa tr m v buffer base p = m p)"
proof (intro exI conjI allI impI)
  let ?b = "nat (sint base)"
  let ?t = "to_base ?b (unat v)"
  have b: "2 \<le> ?b" "?b \<le> 32"
    using assms(1,2) by simp_all
  show len: "length ?t \<le> 64"
    using b(1) by (rule to_base_word_bound)
  have "inj_at tr buffer (Suc (length ?t))"
    using assms(3) by (rule inj_at_mono [rotated]) (use len in simp)
  then show "cstring tr (uitoa tr m v buffer base) buffer ?t"
    using assms(1,2) to_base_no_nul [OF b] by (simp add: cstring_def uitoa_eq reversed_text Let_def)
  show "parse_base ?b ?t = unat v"
    using b by (rule parse_to_base)
  fix p
  assume "p \<notin> foot tr buffer 65"
  then have "p \<notin> foot tr buffer (Suc (length ?t))"
    using foot_mono [of "Suc (length ?t)" 65 tr buffer] len by auto
  then show "uitoa tr m v buffer base p = m p"
    using assms(1,2) by (simp add: uitoa_eq reversed_text_other Let_def)
qed

theorem uitoa_round_trip_witness:
  "\<exists>t. cstring (\<lambda>a. a) (uitoa (\<lambda>a. a) (\<lambda>_. 0) 0xBEEF 0x1000 16) 0x1000 t \<and> length t \<le> 64 \<and>
       parse_base 16 t = 0xBEEF \<and>
       (\<forall>p. p \<notin> foot (\<lambda>a. a) 0x1000 65 \<longrightarrow> uitoa (\<lambda>a. a) (\<lambda>_. 0) 0xBEEF 0x1000 16 p = 0)"
  using uitoa_round_trip [of 16 "\<lambda>a. a" "0x1000" "\<lambda>_. 0" "0xBEEF"] by (simp add: inj_at_id)

lemma uitoa_hex_other:
  assumes "p \<notin> foot tr buffer 17"
  shows "uitoa tr m v buffer 16 p = m p"
proof -
  let ?t = "to_base 16 (unat v)"
  have "unat v < 16 ^ 16"
    using unat_lt_u64 [of v] by simp
  then have "length ?t \<le> 16"
    by (rule length_to_base [rotated]) simp
  then have "p \<notin> foot tr buffer (Suc (length ?t))"
    using assms foot_mono [of "Suc (length ?t)" 17 tr buffer] by auto
  then show ?thesis
    by (simp add: uitoa_eq reversed_text_other Let_def)
qed

text \<open>
  In base 16, the base every caller in the kernel uses, \<open>uitoa\<close> writes at most 17 bytes
  (16 digits and the terminator), whatever the value: the 32-byte buffers of \<open>interrupt_handler\<close>,
  \<open>clock_handler\<close>, \<open>run_elf\<close> and \<open>_start\<close> cannot overflow.
\<close>

lemma uitoa_hex_stays_in_17_bytes:
  assumes "p \<notin> foot tr buffer 17"
  shows "uitoa tr m v buffer 16 p = m p"
  using assms by (rule uitoa_hex_other)

lemma uitoa_hex_stays_in_17_bytes_witness: "uitoa (\<lambda>a. a) (\<lambda>_. 7) 0xFFFFFFFFFFFFFFFF 0x1000 16 0x2000 = 7"
  using uitoa_hex_stays_in_17_bytes [of "0x2000" "\<lambda>a. a" "0x1000" "\<lambda>_. 7" "0xFFFFFFFFFFFFFFFF"]
  by (simp add: foot_id)

text \<open>
  \<open>itoa\<close> is right on every value of 32-bit magnitude: in base ten the buffer holds a minus sign
  for a negative value and then the digits of the magnitude.
\<close>

lemma itoa_text_correct:
  assumes "2 \<le> sint base" "sint base \<le> 32" "- 2147483648 < sint v" "sint v < 2147483648"
    and "inj_at tr buffer (Suc (length (itoa_text (nat (sint base)) (sint v))))"
  shows "cstring tr (itoa tr m v buffer base) buffer (itoa_text (nat (sint base)) (sint v))"
  using assms to_base_no_nul [of "nat (sint base)" "nat \<bar>sint v\<bar>"]
  by (simp add: cstring_def itoa_eq reversed_text Let_def) (simp add: itoa_text_def)

lemma itoa_text_correct_witness:
  "cstring (\<lambda>a. a) (itoa (\<lambda>a. a) (\<lambda>_. 0) (-42) 0x1000 10) 0x1000 (itoa_text 10 (-42))"
  using itoa_text_correct [of 10 "-42" "\<lambda>a. a" "0x1000" "\<lambda>_. 0"]
  by (simp add: inj_at_id itoa_text_def to_base_def rdigits.simps)

text \<open>
  Beyond 32 bits \<open>itoa\<close> prints something else: \<open>abs\<close> takes an \<open>int\<close>, so two values with the same
  low word and sign leave the same text. 4294967296 is printed as \<open>0\<close>.
\<close>

lemma itoa_cuts_to_32_bits:
  "(ucast v :: i32) = ucast w \<Longrightarrow> (sint v < 0 \<longleftrightarrow> sint w < 0) \<Longrightarrow>
   itoa tr m v buffer base = itoa tr m w buffer base"
  by (simp add: itoa_def)

lemma itoa_cuts_to_32_bits_witness:
  "itoa (\<lambda>a. a) (\<lambda>_. 0) 4294967296 0x1000 10 = itoa (\<lambda>a. a) (\<lambda>_. 0) 0 0x1000 10"
  by (rule itoa_cuts_to_32_bits) simp_all

text \<open>
  C21. \<open>strcat\<close> returns and leaves the concatenation at the destination, when the destination has
  room for it apart from the source, and leaves every byte past the concatenation alone.
\<close>

theorem strcat_concatenates:
  assumes dest: "cstring tr m dest xs" and src: "cstring tr m src ys"
    and room: "inj_at tr dest (Suc (length xs + length ys))"
    and apart: "foot tr dest (Suc (length xs + length ys)) \<inter> foot tr src (Suc (length ys)) = {}"
    and len: "Suc (length xs + length ys) < 18446744073709551616"
  shows "\<exists>m'. strcat tr m dest src = Some m' \<and> cstring tr m' dest (xs @ ys) \<and>
              (\<forall>p. p \<notin> foot tr dest (Suc (length xs + length ys)) \<longrightarrow> m' p = m p)"
proof -
  let ?n = "length xs" and ?d = "dest + of_nat (length xs)"
  let ?m = "st_bytes tr m ?d (ys @ [0])"
  have sub: "foot tr ?d (Suc (length ys)) \<subseteq> foot tr dest (Suc (?n + length ys))"
    by (rule foot_shift) simp
  have inj: "inj_at tr ?d (Suc (length ys))"
    using room by (rule inj_at_shift) simp
  have "strcat tr m dest src = Some ?m"
    using strcpy_cstring [OF src _ inj] sub apart len
    by (auto simp: strcat_def strlen_eq [OF dest])
  moreover have "foot tr (dest + of_nat 0) ?n \<inter> foot tr ?d (Suc (length ys)) = {}"
    using room by (rule foot_apart) auto
  then have "ld_bytes tr ?m dest ?n = ld_bytes tr m dest ?n"
    by (intro ld_bytes_st_bytes_other) simp
  then have "cstring tr ?m dest (xs @ ys)"
    using dest src ld_bytes_st_bytes [of tr ?d "ys @ [0]" m] inj
    by (simp add: cstring_def ld_bytes_snoc [of tr m] ld_bytes_add [of tr ?m dest ?n "Suc (length ys)", simplified])
  moreover have "?m p = m p" if "p \<notin> foot tr dest (Suc (?n + length ys))" for p
    using that sub by (subst st_bytes_other) auto
  ultimately show ?thesis
    by blast
qed

theorem strcat_concatenates_witness:
  "\<exists>m'. strcat (\<lambda>a. a) ((\<lambda>_. 0)(0x1000 := 65, 0x2000 := 66)) 0x1000 0x2000 = Some m' \<and>
        cstring (\<lambda>a. a) m' 0x1000 ([65] @ [66]) \<and>
        (\<forall>p. p \<notin> foot (\<lambda>a. a) 0x1000 (Suc (length [65 :: u8] + length [66 :: u8])) \<longrightarrow>
             m' p = ((\<lambda>_. 0)(0x1000 := 65, 0x2000 := 66)) p)"
  by (rule strcat_concatenates)
    (auto simp: cstring_Cons cstring_Nil ld8_def inj_at_id foot_id)

text \<open>
  C22. \<open>strcmp\<close> returns on any two C strings; its result is zero exactly when they are equal and
  negative exactly when the first is smaller in the lexicographic order of unsigned bytes.
\<close>

theorem strcmp_orders:
  "cstring tr m a xs \<Longrightarrow> cstring tr m b ys \<Longrightarrow>
   \<exists>r. strcmp tr m a b = Some r \<and> (r = 0 \<longleftrightarrow> xs = ys) \<and> (r < 0 \<longleftrightarrow> (xs, ys) \<in> lexord {(c, d). c < d})"
  by (rule strcmp_eq)

theorem strcmp_orders_witness:
  "\<exists>r. strcmp (\<lambda>a. a) ((\<lambda>_. 0)(0x1000 := 65, 0x2000 := 66)) 0x1000 0x2000 = Some r \<and>
       (r = 0 \<longleftrightarrow> [65 :: u8] = [66]) \<and> (r < 0 \<longleftrightarrow> ([65 :: u8], [66]) \<in> lexord {(c, d). c < d})"
  by (rule strcmp_orders) (simp_all add: cstring_Cons cstring_Nil ld8_def)

end
