(* ===== verification/Interfaces.thy ===== *)
theory Interfaces
  imports Kalix_Prelude
begin

text \<open>
  The contracts between components, as locales: what a client of a component may rely on. Each is
  interpreted on the model's own operations in the theory of the component that provides it.

  A frame allocator hands out 4096-byte frames of physical memory. Address 0 means "none left"; a
  frame it returns was not in use, is in use afterwards and is zeroed, and nothing in a frame that
  was in use changes, apart from the allocator's own records.
\<close>

definition frame_of :: "u64 \<Rightarrow> nat" where
  "frame_of p = unat p div 4096"

locale frame_allocator =
  fixes alloc :: "'s \<Rightarrow> u64 \<times> 's"
    and in_use :: "'s \<Rightarrow> nat \<Rightarrow> bool"
    and frames :: "'s \<Rightarrow> nat"
    and byte_at :: "'s \<Rightarrow> u64 \<Rightarrow> u8"
    and own :: "'s \<Rightarrow> u64 set"
    and ok :: "'s \<Rightarrow> bool"
  assumes frames_bound: "ok s \<Longrightarrow> frames s < 4294967296"
    and frame0_in_use: "ok s \<Longrightarrow> in_use s 0"
    and own_in_use: "ok s \<Longrightarrow> p \<in> own s \<Longrightarrow> frame_of p < frames s \<Longrightarrow> in_use s (frame_of p)"
    and alloc_ok: "ok s \<Longrightarrow> alloc s = (a, t) \<Longrightarrow> ok t"
    and alloc_frames: "ok s \<Longrightarrow> alloc s = (a, t) \<Longrightarrow> frames t = frames s \<and> own t = own s"
    and alloc_none: "ok s \<Longrightarrow> alloc s = (0, t) \<Longrightarrow> t = s"
    and alloc_some: "ok s \<Longrightarrow> alloc s = (a, t) \<Longrightarrow> a \<noteq> 0 \<Longrightarrow>
      a = of_nat (4096 * frame_of a) \<and> frame_of a < frames s \<and> \<not> in_use s (frame_of a)"
    and alloc_in_use: "ok s \<Longrightarrow> alloc s = (a, t) \<Longrightarrow> k < frames s \<Longrightarrow>
      in_use t k \<longleftrightarrow> in_use s k \<or> (a \<noteq> 0 \<and> k = frame_of a)"
    and alloc_zero: "ok s \<Longrightarrow> alloc s = (a, t) \<Longrightarrow> a \<noteq> 0 \<Longrightarrow> frame_of p = frame_of a \<Longrightarrow> byte_at t p = 0"
    and alloc_keeps: "ok s \<Longrightarrow> alloc s = (a, t) \<Longrightarrow> p \<notin> own s \<Longrightarrow>
      a = 0 \<or> frame_of p \<noteq> frame_of a \<Longrightarrow> byte_at t p = byte_at s p"
    and alloc_full: "ok s \<Longrightarrow> alloc s = (0, t) \<Longrightarrow> k < frames s \<Longrightarrow> in_use s k"
begin

lemma alloc_keeps_used:
  assumes "ok s" "alloc s = (a, t)" "p \<notin> own s" "frame_of p < frames s \<Longrightarrow> in_use s (frame_of p)"
  shows "byte_at t p = byte_at s p"
  using alloc_keeps [OF assms(1-3)] alloc_some [OF assms(1,2)] assms(4) by metis

lemma alloc_mono: "ok s \<Longrightarrow> alloc s = (a, t) \<Longrightarrow> k < frames s \<Longrightarrow> in_use s k \<Longrightarrow> in_use t k"
  by (simp add: alloc_in_use)

lemma alloc_fresh_not_own:
  "ok s \<Longrightarrow> alloc s = (a, t) \<Longrightarrow> a \<noteq> 0 \<Longrightarrow> frame_of p = frame_of a \<Longrightarrow> p \<notin> own s"
  using own_in_use [of s p] alloc_some [of s a t] by auto

end

text \<open>A run of allocations.\<close>

fun alloc_many :: "('s \<Rightarrow> u64 \<times> 's) \<Rightarrow> nat \<Rightarrow> 's \<Rightarrow> u64 list \<times> 's" where
  "alloc_many alloc 0 s = ([], s)"
| "alloc_many alloc (Suc n) s =
     (let (a, t) = alloc s; (as, u) = alloc_many alloc n t in (a # as, u))"

context frame_allocator
begin

lemma alloc_many_distinct:
  assumes "ok s" "alloc_many alloc n s = (as, t)" "0 \<notin> set as"
  shows "ok t \<and> frames t = frames s \<and> distinct (map frame_of as) \<and>
    (\<forall>k<frames s. in_use t k \<longleftrightarrow> in_use s k \<or> k \<in> frame_of ` set as) \<and>
    (\<forall>a\<in>set as. frame_of a < frames s \<and> \<not> in_use s (frame_of a))"
  using assms
proof (induction n arbitrary: s as)
  case 0
  then show ?case by simp
next
  case (Suc n)
  obtain a u where a: "alloc s = (a, u)" by (cases "alloc s")
  obtain bs where bs: "alloc_many alloc n u = (bs, t)" and as: "as = a # bs"
    using Suc.prems(2) by (auto simp: a split: prod.splits)
  have ne: "a \<noteq> 0" and "0 \<notin> set bs"
    using Suc.prems(3) as by auto
  note u = alloc_ok [OF Suc.prems(1) a] alloc_frames [OF Suc.prems(1) a] alloc_some [OF Suc.prems(1) a ne]
    alloc_in_use [OF Suc.prems(1) a]
  have IH: "ok t \<and> frames t = frames u \<and> distinct (map frame_of bs) \<and>
    (\<forall>k<frames u. in_use t k \<longleftrightarrow> in_use u k \<or> k \<in> frame_of ` set bs) \<and>
    (\<forall>b\<in>set bs. frame_of b < frames u \<and> \<not> in_use u (frame_of b))"
    using u(1) bs \<open>0 \<notin> set bs\<close> by (rule Suc.IH)
  moreover have "frame_of a \<notin> frame_of ` set bs"
    using IH u ne by fastforce
  ultimately show ?case
    using u ne unfolding as by auto
qed

end

text \<open>
  A frame pool also takes frames back: freeing a frame in use clears its mark and nothing else.
\<close>

locale frame_pool = frame_allocator +
  fixes free :: "u64 \<Rightarrow> 's \<Rightarrow> 's"
  assumes free_in_use: "ok s \<Longrightarrow> frame_of a < frames s \<Longrightarrow> k < frames s \<Longrightarrow>
      in_use (free a s) k \<longleftrightarrow> in_use s k \<and> k \<noteq> frame_of a"
    and free_keeps: "ok s \<Longrightarrow> frame_of a < frames s \<Longrightarrow> p \<notin> own s \<Longrightarrow> byte_at (free a s) p = byte_at s p"
    and free_ok: "ok s \<Longrightarrow> frame_of a < frames s \<Longrightarrow> frame_of a \<noteq> 0 \<Longrightarrow> frame_of a \<notin> frame_of ` own s \<Longrightarrow>
      ok (free a s) \<and> frames (free a s) = frames s"
begin

lemma alloc_free_round_trip:
  assumes "ok s" "alloc s = (a, t)" "a \<noteq> 0"
  shows "ok (free a t) \<and> (\<forall>k<frames s. in_use (free a t) k = in_use s k) \<and>
    (\<forall>p. p \<notin> own s \<and> frame_of p \<noteq> frame_of a \<longrightarrow> byte_at (free a t) p = byte_at s p)"
proof -
  note t = alloc_ok [OF assms(1,2)] alloc_frames [OF assms(1,2)] alloc_some [OF assms]
    alloc_in_use [OF assms(1,2)]
  have "frame_of a \<noteq> 0"
    using alloc_some [OF assms] frame0_in_use [OF assms(1)] by metis
  moreover have "frame_of a \<notin> frame_of ` own t"
    using alloc_fresh_not_own [OF assms] t by auto
  ultimately have "ok (free a t)"
    using free_ok [of t a] t by simp
  moreover have "in_use (free a t) k = in_use s k" if "k < frames s" for k
    using free_in_use [of t a k] t that assms(3) by auto
  moreover have "byte_at (free a t) p = byte_at s p" if "p \<notin> own s" "frame_of p \<noteq> frame_of a" for p
    using free_keeps [of t a p] alloc_keeps [OF assms(1,2), of p] t that by simp
  ultimately show ?thesis by blast
qed

end

text \<open>
  A run of allocations as a whole: the non-null results are the frames the pool gained in use, each
  once, and there are as many as were asked for or as were free.
\<close>

context frame_allocator
begin

definition granted :: "u64 list \<Rightarrow> nat list" where
  "granted as = map frame_of (filter (\<lambda>a. a \<noteq> 0) as)"

definition spare :: "'s \<Rightarrow> nat set" where
  "spare s = {k. k < frames s \<and> \<not> in_use s k}"

lemma finite_spare: "finite (spare s)"
  by (simp add: spare_def)

lemma spare_alloc:
  assumes "ok s" "alloc s = (a, t)"
  shows "if a = 0 then t = s \<and> spare s = {} else frame_of a \<in> spare s \<and> spare t = spare s - {frame_of a}"
  using alloc_frames [OF assms] alloc_some [OF assms] alloc_in_use [OF assms] alloc_none [of s t] alloc_full [of s t] assms
  by (auto simp: spare_def)

lemma alloc_many_granted:
  assumes "ok s" "alloc_many alloc n s = (as, t)"
  shows "ok t \<and> frames t = frames s \<and> distinct (granted as) \<and> set (granted as) \<subseteq> spare s \<and> spare t = spare s - set (granted as) \<and>
    length (granted as) = min n (card (spare s))"
  using assms
proof (induction n arbitrary: s as)
  case 0
  then show ?case by (simp add: granted_def)
next
  case (Suc n)
  obtain a u where a: "alloc s = (a, u)" by (cases "alloc s")
  obtain bs where bs: "alloc_many alloc n u = (bs, t)" and as: "as = a # bs"
    using Suc.prems(2) by (auto simp: a split: prod.splits)
  note IH = Suc.IH [OF alloc_ok [OF Suc.prems(1) a] bs]
  show ?case
  proof (cases "a = 0")
    case True
    then show ?thesis
      using IH spare_alloc [OF Suc.prems(1) a] by (auto simp: as granted_def)
  next
    case False
    have fr: "frames u = frames s" using alloc_frames [OF Suc.prems(1) a] by simp
    from False have f: "frame_of a \<in> spare s" "spare u = spare s - {frame_of a}"
      using spare_alloc [OF Suc.prems(1) a] by simp_all
    then have "card (spare s) = Suc (card (spare u))"
      using card.remove [OF finite_spare f(1)] by simp
    then show ?thesis
      using IH f fr False by (auto simp: as granted_def)
  qed
qed

end

end
