(* ===== verification/Pmm.thy ===== *)
theory Pmm
  imports Panic Utils Interfaces
begin

text \<open>
  \<open>mem/pmm_mem.c\<close>: the physical memory manager. A bitmap in memory at \<open>pmm_map\<close> has one bit per
  4096-byte frame, set when the frame is in use; \<open>pmalloc\<close> searches it for a run of free frames and
  a 64-byte slab allocator sits on top. The record adds the component's globals.
\<close>

record pmm = sys +
  pmm_map :: u64
  hhdm :: u64
  ramb :: u64
  pmm_map_size :: u32
  slabH :: u64

section \<open>Address macros (\<open>pmm_mem.h\<close>)\<close>

text \<open>\<open>ALIGN\<close> clears ten bits, not twelve.\<close>

definition ALIGN :: "u64 \<Rightarrow> u64" where
  "ALIGN addr = addr AND NOT 0x3FF"

text \<open>
  \<open>ALIGN(addr)+((uint64_t)addr)%4096?1:0\<close>: the conditional takes the whole sum as its test.
\<close>

definition ALIGNUP :: "u64 \<Rightarrow> u64" where
  "ALIGNUP addr = (if ALIGN addr + addr mod 4096 \<noteq> 0 then 1 else 0)"

definition TOBLOCKS :: "u64 \<Rightarrow> u64" where
  "TOBLOCKS addr = ALIGN addr div 4096"

definition PMM_REGU :: "'a pmm_scheme \<Rightarrow> u64 \<Rightarrow> bool" where
  "PMM_REGU s block = bit (load8 s (pmm_map s + block div 8)) (unat (block mod 8))"

section \<open>Library routines on the machine\<close>

definition memset_st :: "u64 \<Rightarrow> u8 \<Rightarrow> u64 \<Rightarrow> 'a machine_scheme \<Rightarrow> 'a machine_scheme" where
  "memset_st dest val len s = s\<lparr>mem := memset (vtr s) (mem s) dest val len\<rparr>"

definition memcpy_st :: "u64 \<Rightarrow> u64 \<Rightarrow> u64 \<Rightarrow> 'a machine_scheme \<Rightarrow> 'a machine_scheme" where
  "memcpy_st dest src len s = s\<lparr>mem := memcpy (vtr s) (mem s) dest src len\<rparr>"

definition uitoa_st :: "u64 \<Rightarrow> u64 \<Rightarrow> i32 \<Rightarrow> 'a machine_scheme \<Rightarrow> 'a machine_scheme" where
  "uitoa_st value buffer base s = s\<lparr>mem := uitoa (vtr s) (mem s) value buffer base\<rparr>"

text \<open>The text in an \<open>n\<close>-byte buffer: its bytes up to the first zero.\<close>

definition c_text :: "'a machine_scheme \<Rightarrow> u64 \<Rightarrow> nat \<Rightarrow> u8 list" where
  "c_text s buf n = takeWhile (\<lambda>c. c \<noteq> 0) (ld_bytes (vtr s) (mem s) buf n)"

lemma uitoa_st_same [simp, intro]: "same_but_mem s (uitoa_st v b base s)"
  by (simp add: uitoa_st_def)

section \<open>The bitmap\<close>

text \<open>
  Both loops move the byte index with \<open>i\<close> but take the bit from \<open>block % 8\<close>; \<open>block + i\<close> is 32-bit.
\<close>

definition pmm_ureg :: "u32 \<Rightarrow> u32 \<Rightarrow> 'a pmm_scheme \<Rightarrow> 'a pmm_scheme" where
  "pmm_ureg block blocks s =
     fold (\<lambda>i s. let a = pmm_map s + ucast ((block + of_nat i) div 8)
                 in store8 a (load8 s a OR push_bit (unat (block mod 8)) 1) s)
       [0..<unat blocks] s"

definition pmm_unreg :: "u32 \<Rightarrow> u32 \<Rightarrow> 'a pmm_scheme \<Rightarrow> 'a pmm_scheme" where
  "pmm_unreg block blocks s =
     fold (\<lambda>i s. let a = pmm_map s + ucast ((block + of_nat i) div 8)
                 in store8 a (load8 s a AND NOT (push_bit (unat (block mod 8)) 1)) s)
       [0..<unat blocks] s"

text \<open>
  The search loop of \<open>pmalloc\<close>: \<open>freebl\<close> free frames in a row so far, the first of them \<open>p\<close>. It
  yields the run as soon as it is long enough.
\<close>

function pmalloc_search :: "'a pmm_scheme \<Rightarrow> u32 \<Rightarrow> u32 \<Rightarrow> u32 \<Rightarrow> u64 \<Rightarrow> (u64 \<times> u32) option" where
  "pmalloc_search s blocks i freebl p =
     (if i < pmm_map_size s * 8
      then if PMM_REGU s (ucast i) then pmalloc_search s blocks (i + 1) 0 0
           else let p' = (if freebl = 0 then ucast i else p);
                    freebl' = freebl + 1
                in if freebl' = blocks then Some (p', freebl')
                   else pmalloc_search s blocks (i + 1) freebl' p'
      else None)"
  by pat_completeness auto
termination
proof (relation "measure (\<lambda>(s, blocks, i, freebl, p). unat (pmm_map_size s * 8) - unat i)")
  show "((s, blocks, i + 1, 0, 0), s, blocks, i, freebl, p)
        \<in> measure (\<lambda>(s, blocks, i, freebl, p). unat (pmm_map_size s * 8) - unat i)"
    if "i < pmm_map_size s * 8" for s :: "'a pmm_scheme" and blocks i freebl p
    using that unat_Suc_less [OF that] by (simp add: word_less_nat_alt)
  show "((s, blocks, i + 1, f', p'), s, blocks, i, freebl, p)
        \<in> measure (\<lambda>(s, blocks, i, freebl, p). unat (pmm_map_size s * 8) - unat i)"
    if "i < pmm_map_size s * 8" for s :: "'a pmm_scheme" and blocks i freebl p f' p'
    using that unat_Suc_less [OF that] by (simp add: word_less_nat_alt)
qed simp

declare pmalloc_search.simps [simp del]

text \<open>A found run is marked, its first frame (only) is zeroed, and its address returned; else 0.\<close>

definition pmalloc :: "u32 \<Rightarrow> 'a pmm_scheme \<Rightarrow> u64 \<times> 'a pmm_scheme" where
  "pmalloc blocks s =
     (case pmalloc_search s blocks 0 0 0 of
        None \<Rightarrow> (0, s)
      | Some (p, freebl) \<Rightarrow>
          let s1 = pmm_ureg (ucast p) freebl s;
              returned = push_bit 12 p
          in (returned, memset_st returned 0 4096 s1))"

definition pfree :: "u64 \<Rightarrow> u32 \<Rightarrow> 'a pmm_scheme \<Rightarrow> 'a pmm_scheme" where
  "pfree p blocks s = pmm_unreg (ucast (TOBLOCKS p)) blocks s"

section \<open>Start-up\<close>

text \<open>
  An entry of the boot loader's memory map, read from the tag at \<open>stmap\<close>: the entry count is at
  offset 16, the 24-byte entries follow from 24 on.
\<close>

record mmap_entry =
  me_base :: u64
  me_length :: u64
  me_type :: u32

definition memmap_entries :: "'a machine_scheme \<Rightarrow> u64 \<Rightarrow> u64" where
  "memmap_entries s stmap = load64 s (stmap + 16)"

definition memmap_at :: "'a machine_scheme \<Rightarrow> u64 \<Rightarrow> u64 \<Rightarrow> mmap_entry" where
  "memmap_at s stmap i =
     (let a = stmap + 24 + 24 * i
      in \<lparr>me_base = load64 s a, me_length = load64 s (a + 8), me_type = load32 s (a + 16)\<rparr>)"

text \<open>The start value reads the entry one past the last.\<close>

definition pmm_highest :: "'a machine_scheme \<Rightarrow> u64 \<Rightarrow> u64" where
  "pmm_highest s stmap =
     (let n = memmap_entries s stmap; e = memmap_at s stmap n
      in fold (\<lambda>i highestb.
           let e = memmap_at s stmap (of_nat i); currentb = me_base e + me_length e
           in if highestb < currentb then currentb else highestb)
         [0..<unat n] (me_base e + me_length e))"

definition pmm_place :: "'a pmm_scheme \<Rightarrow> u64 \<Rightarrow> u32 \<Rightarrow> u64" where
  "pmm_place s stmap bneeded =
     (case find (\<lambda>i. let e = memmap_at s stmap (of_nat i)
                     in me_type e = 1 \<and> me_length e \<ge> ucast bneeded)
             [0..<unat (memmap_entries s stmap)] of
        None \<Rightarrow> pmm_map s
      | Some i \<Rightarrow> me_base (memmap_at s stmap (of_nat i)) + hhdm s)"

text \<open>
  The regions given back. The entry count is read once before the loop; the entries are read as the
  loop goes, from the memory it changes.
\<close>

definition pmm_release :: "u64 \<Rightarrow> u32 \<Rightarrow> 'a pmm_scheme \<Rightarrow> 'a pmm_scheme" where
  "pmm_release stmap bneeded s =
     fold (\<lambda>i s. let e = memmap_at s stmap (of_nat i)
                 in if me_type e = 1 \<and>
                       (me_base e > pmm_map s + ucast bneeded \<or> me_base e + me_length e < pmm_map s)
                    then pmm_unreg (ucast (TOBLOCKS (me_base e))) (ucast (TOBLOCKS (me_length e))) s
                    else s)
       [0..<unat (memmap_entries s stmap)] s"

definition pmm_init :: "u64 \<Rightarrow> 'a pmm_scheme \<Rightarrow> 'a pmm_scheme" where
  "pmm_init stmap s =
     (let highestb = pmm_highest s stmap;
          s1 = s\<lparr>ramb := highestb\<rparr>;
          bneeded = ucast (TOBLOCKS highestb div 8);
          s2 = s1\<lparr>pmm_map := pmm_place s1 stmap bneeded\<rparr>;
          s3 = fold (\<lambda>i s. store8 (pmm_map s + of_nat i) 0xFF s) [0..<unat bneeded] s2;
          s4 = pmm_release stmap bneeded s3
      in s4\<lparr>pmm_map_size := bneeded\<rparr>)"

section \<open>The slab allocator\<close>

text \<open>
  A slab is one frame: a count in its first eight bytes, then 64-byte objects from offset 8 on, the
  free ones linked through their first word.
\<close>

definition spmalloc :: "'a pmm_scheme \<Rightarrow> u64 \<times> 'a pmm_scheme" where
  "spmalloc s =
     (if slabH s = 0
      then let (slab, s1) = pmalloc 1 s;
               s2 = store64 slab 62 s1;
               returned = slab + 8;
               h = returned + 64;
               s3 = fold (\<lambda>i s. store64 (h + of_nat i * 64) (h + (of_nat i + 1) * 64) s) [0..<61] s2;
               s4 = store64 (h + 61 * 64) 0 s3
           in (returned, s4\<lparr>slabH := h\<rparr>)
      else let a = ALIGN (slabH s);
               s1 = store64 a (load64 s a - 1) s;
               returned = slabH s1
           in (returned, s1\<lparr>slabH := load64 s1 (slabH s1)\<rparr>))"

definition spfree :: "u64 \<Rightarrow> 'a pmm_scheme \<Rightarrow> 'a pmm_scheme" where
  "spfree addr s =
     (let a = ALIGN addr;
          s1 = store64 a (load64 s a + 1) s
      in if load64 s1 a = 63 then (pfree a 1 s1)\<lparr>slabH := 0\<rparr>
         else (store64 addr (slabH s1) s1)\<lparr>slabH := addr\<rparr>)"

section \<open>Frames in use\<close>

text \<open>The bitmap read as a set of frame numbers, and the bytes it occupies.\<close>

definition used :: "'a pmm_scheme \<Rightarrow> nat \<Rightarrow> bool" where
  "used s k \<longleftrightarrow> bit (load8 s (pmm_map s + of_nat (k div 8))) (k mod 8)"

definition nframes :: "'a pmm_scheme \<Rightarrow> nat" where
  "nframes s = 8 * unat (pmm_map_size s)"

abbreviation bm_region :: "'a pmm_scheme \<Rightarrow> u64 set" where
  "bm_region s \<equiv> foot (vtr s) (pmm_map s) (unat (pmm_map_size s))"

lemma same_but_mem_pmm:
  "same_but_mem s t \<Longrightarrow> pmm_map t = pmm_map s \<and> hhdm t = hhdm s \<and> ramb t = ramb s \<and>
   pmm_map_size t = pmm_map_size s \<and> slabH t = slabH s \<and> nframes t = nframes s"
  by (auto simp: same_but_mem_def nframes_def)

lemma same_but_io_pmm:
  "same_but_io s t \<Longrightarrow> pmm_map t = pmm_map s \<and> hhdm t = hhdm s \<and> ramb t = ramb s \<and>
   pmm_map_size t = pmm_map_size s \<and> slabH t = slabH s \<and> nframes t = nframes s"
  by (auto simp: same_but_io_def nframes_def)

lemma PMM_REGU_used: "k < 18446744073709551616 \<Longrightarrow> PMM_REGU s (of_nat k) = used s k"
proof -
  assume k: "k < 18446744073709551616"
  have "(of_nat k :: u64) div 8 = of_nat (k div 8)" "unat ((of_nat k :: u64) mod 8) = k mod 8"
    using k by (simp_all add: word_arith_nat_div unat_mod_distrib unat_of_nat64)
  then show ?thesis
    by (simp add: PMM_REGU_def used_def)
qed

lemma used_cong:
  assumes "same_but_io s t" "mem t (vtr s (pmm_map s + of_nat (k div 8))) = mem s (vtr s (pmm_map s + of_nat (k div 8)))"
  shows "used t k = used s k"
  using assms same_but_io_pmm [OF assms(1)] same_but_io_machine [OF assms(1)]
  by (simp add: used_def ld8_def)

lemma pmm_ureg_same: "same_but_mem s (pmm_ureg b n s)"
  unfolding pmm_ureg_def by (intro same_but_mem_fold) (simp add: Let_def)

lemma pmm_unreg_same: "same_but_mem s (pmm_unreg b n s)"
  unfolding pmm_unreg_def by (intro same_but_mem_fold) (simp add: Let_def)

lemma memset_st_same [simp, intro]: "same_but_mem s (memset_st d v n s)"
  by (simp add: memset_st_def)

lemma memcpy_st_same [simp, intro]: "same_but_mem s (memcpy_st d c n s)"
  by (simp add: memcpy_st_def)

lemma pmalloc_same: "same_but_mem s (snd (pmalloc blocks s))"
proof (cases "pmalloc_search s blocks 0 0 0")
  case None
  then show ?thesis by (simp add: pmalloc_def)
next
  case (Some r)
  then show ?thesis
    using same_but_mem_trans [OF pmm_ureg_same memset_st_same]
    by (cases r) (simp add: pmalloc_def Let_def)
qed

text \<open>One store into the bitmap.\<close>

lemma used_store8:
  assumes "inj_at (vtr s) (pmm_map s) N" "j < N" "k < 8 * N"
  shows "used (store8 (pmm_map s + of_nat j) v s) k = (if k div 8 = j then bit v (k mod 8) else used s k)"
proof -
  have "k div 8 < N" using assms(3) by auto
  then have "vtr s (pmm_map s + of_nat (k div 8)) = vtr s (pmm_map s + of_nat j) \<longleftrightarrow> k div 8 = j"
    using assms(1,2) by (simp add: inj_at_eq)
  then show ?thesis
    by (simp add: used_def store8_def ld8_st8)
qed

lemma used_bitmap_step:
  assumes g: "\<And>v j. j < 8 \<Longrightarrow> bit (g v) j = (if j = b then val else bit v j)"
    and inj: "inj_at (vtr s) (pmm_map s) N" and j: "j < N" and k: "k < 8 * N"
  shows "used (store8 (pmm_map s + of_nat j) (g (load8 s (pmm_map s + of_nat j))) s) k =
    (if k div 8 = j \<and> k mod 8 = b then val else used s k)"
  unfolding used_store8 [OF inj j k] by (auto simp: g used_def)

lemma mem_store8_other: "p \<noteq> vtr s a \<Longrightarrow> mem (store8 a v s) p = mem s p"
  by (simp add: store8_def st8_def)

text \<open>
  What the marking loop does, exactly: it visits the bytes of the run and sets one and the same bit
  position in each.
\<close>

lemma bitmap_index:
  fixes block :: u32
  assumes "unat block + i < 4294967296"
  shows "pm + ucast ((block + of_nat i) div 8) = (pm + of_nat ((unat block + i) div 8) :: u64)"
proof -
  have i: "unat (of_nat i :: u32) = i"
    using assms by (intro unat_of_nat32) simp
  have "unat (block + of_nat i) = unat block + i"
    using assms by (simp add: unat_word_ariths i)
  then have "unat ((block + of_nat i) div 8) = (unat block + i) div 8"
    by (simp add: unat_div_distrib)
  then have "(ucast ((block + of_nat i) div 8) :: u64) = of_nat ((unat block + i) div 8)"
    by (metis of_nat_unat)
  then show ?thesis by simp
qed

lemma bitmap_loop:
  fixes block :: u32 and s :: "'a pmm_scheme"
  assumes g: "\<And>v j. j < 8 \<Longrightarrow> bit (g v) j = (if j = b then val else bit v j)"
    and inj: "inj_at (vtr s) (pmm_map s) N" and N: "8 * N \<le> 4294967296" and n: "unat block + n \<le> 8 * N"
  defines "t \<equiv> fold (\<lambda>i s. let a = pmm_map s + ucast ((block + of_nat i) div 8)
                         in store8 a (g (load8 s a)) s) [0..<n] s"
  shows "k < 8 * N \<Longrightarrow> used t k =
      (if k mod 8 = b \<and> (\<exists>i<n. (unat block + i) div 8 = k div 8) then val else used s k)"
    and "p \<notin> foot (vtr s) (pmm_map s) N \<Longrightarrow> mem t p = mem s p"
proof -
  let ?f = "\<lambda>i s. let a = pmm_map s + ucast ((block + of_nat i) div 8) in store8 a (g (load8 s a)) s"
  have both: "(k < 8 * N \<longrightarrow> used (fold ?f [0..<m] s) k =
      (if k mod 8 = b \<and> (\<exists>i<m. (unat block + i) div 8 = k div 8) then val else used s k)) \<and>
    (p \<notin> foot (vtr s) (pmm_map s) N \<longrightarrow> mem (fold ?f [0..<m] s) p = mem s p)" if "m \<le> n" for m
    using that
  proof (induction m)
    case 0
    then show ?case by simp
  next
    case (Suc m)
    let ?u = "fold ?f [0..<m] s" and ?j = "(unat block + m) div 8"
    have "same_but_mem s ?u"
      by (intro same_but_mem_fold) (simp add: Let_def)
    then have same: "pmm_map ?u = pmm_map s" "vtr ?u = vtr s"
      using same_but_mem_pmm same_but_mem_machine by fastforce+
    have j: "?j < N" using Suc.prems n by auto
    have small: "unat block + m < 4294967296" using Suc.prems n N by simp
    have step: "fold ?f [0..<Suc m] s =
        store8 (pmm_map ?u + of_nat ?j) (g (load8 ?u (pmm_map ?u + of_nat ?j))) ?u"
      unfolding fold_upt_Suc Let_def bitmap_index [OF small] ..
    have "used (fold ?f [0..<Suc m] s) k = (if k div 8 = ?j \<and> k mod 8 = b then val else used ?u k)"
      if "k < 8 * N"
      unfolding step using inj j that by (intro used_bitmap_step [OF g, where N = N]) (simp_all add: same)
    moreover have "mem (fold ?f [0..<Suc m] s) p = mem ?u p" if "p \<notin> foot (vtr s) (pmm_map s) N"
      unfolding step using that in_foot [OF j, of "vtr s" "pmm_map s"]
      by (intro mem_store8_other) (auto simp: same)
    ultimately show ?case
      using Suc by (auto simp: less_Suc_eq)
  qed
  show "k < 8 * N \<Longrightarrow> used t k =
      (if k mod 8 = b \<and> (\<exists>i<n. (unat block + i) div 8 = k div 8) then val else used s k)"
    using both [of n] by (simp add: t_def)
  show "p \<notin> foot (vtr s) (pmm_map s) N \<Longrightarrow> mem t p = mem s p"
    using both [of n] by (simp add: t_def)
qed

lemma unat_mod8: "unat ((block :: u32) mod 8) = unat block mod 8"
  by (simp add: unat_mod_distrib)

lemma bit_mask8:
  "j < 8 \<Longrightarrow> bit ((v :: u8) OR push_bit b 1) j = (if j = b then True else bit v j)"
  "j < 8 \<Longrightarrow> bit ((v :: u8) AND NOT (push_bit b 1)) j = (if j = b then False else bit v j)"
  by (auto simp: bit_or_iff bit_and_iff bit_not_iff bit_exp_iff dest: bit_imp_le_length)

lemma used_pmm_ureg:
  assumes "inj_at (vtr s) (pmm_map s) N" "8 * N \<le> 4294967296" "unat block + unat n \<le> 8 * N" "k < 8 * N"
  shows "used (pmm_ureg block n s) k \<longleftrightarrow>
    used s k \<or> (k mod 8 = unat block mod 8 \<and> (\<exists>i<unat n. (unat block + i) div 8 = k div 8))"
  using bitmap_loop(1) [OF bit_mask8(1) assms(1-3) assms(4), of "unat (block mod 8)"]
  by (auto simp: pmm_ureg_def unat_mod8)

lemma mem_pmm_ureg:
  assumes "inj_at (vtr s) (pmm_map s) N" "8 * N \<le> 4294967296" "unat block + unat n \<le> 8 * N"
    and "p \<notin> foot (vtr s) (pmm_map s) N"
  shows "mem (pmm_ureg block n s) p = mem s p"
  using bitmap_loop(2) [OF bit_mask8(1) assms(1-4)] by (simp add: pmm_ureg_def)

lemma used_pmm_unreg:
  assumes "inj_at (vtr s) (pmm_map s) N" "8 * N \<le> 4294967296" "unat block + unat n \<le> 8 * N" "k < 8 * N"
  shows "used (pmm_unreg block n s) k \<longleftrightarrow>
    used s k \<and> \<not> (k mod 8 = unat block mod 8 \<and> (\<exists>i<unat n. (unat block + i) div 8 = k div 8))"
  using bitmap_loop(1) [OF bit_mask8(2) assms(1-3) assms(4), of "unat (block mod 8)"]
  by (auto simp: pmm_unreg_def unat_mod8)

lemma mem_pmm_unreg:
  assumes "inj_at (vtr s) (pmm_map s) N" "8 * N \<le> 4294967296" "unat block + unat n \<le> 8 * N"
    and "p \<notin> foot (vtr s) (pmm_map s) N"
  shows "mem (pmm_unreg block n s) p = mem s p"
  using bitmap_loop(2) [OF bit_mask8(2) assms(1-4)] by (simp add: pmm_unreg_def)

text \<open>For one frame the position is the frame's own.\<close>

lemma div_mod8_eq: "k mod 8 = b mod 8 \<and> b div 8 = k div 8 \<longleftrightarrow> k = (b :: nat)"
  by (metis div_mult_mod_eq)

lemma used_pmm_ureg_1:
  assumes "inj_at (vtr s) (pmm_map s) N" "8 * N \<le> 4294967296" "unat block < 8 * N" "k < 8 * N"
  shows "used (pmm_ureg block 1 s) k \<longleftrightarrow> used s k \<or> k = unat block"
  using used_pmm_ureg [OF assms(1,2) _ assms(4), of block 1] assms(3) div_mod8_eq [of k "unat block"]
  by auto

lemma used_pmm_unreg_1:
  assumes "inj_at (vtr s) (pmm_map s) N" "8 * N \<le> 4294967296" "unat block < 8 * N" "k < 8 * N"
  shows "used (pmm_unreg block 1 s) k \<longleftrightarrow> used s k \<and> k \<noteq> unat block"
  using used_pmm_unreg [OF assms(1,2) _ assms(4), of block 1] assms(3) div_mod8_eq [of k "unat block"]
  by auto

section \<open>The search is first fit\<close>

definition free_run :: "'a pmm_scheme \<Rightarrow> nat \<Rightarrow> nat \<Rightarrow> bool" where
  "free_run s p n \<longleftrightarrow> (\<forall>k. p \<le> k \<and> k < p + n \<longrightarrow> \<not> used s k)"

definition first_fit :: "'a pmm_scheme \<Rightarrow> nat \<Rightarrow> nat \<Rightarrow> bool" where
  "first_fit s n p \<longleftrightarrow> p + n \<le> nframes s \<and> free_run s p n \<and> (\<forall>q<p. \<not> free_run s q n)"

lemma unat_nframes:
  assumes "nframes s < 4294967296"
  shows "unat (pmm_map_size s * 8) = nframes s"
  using assms by (simp add: unat_word_ariths nframes_def mult.commute)

lemma first_fit_unique: "first_fit s n p \<Longrightarrow> first_fit s n q \<Longrightarrow> p = q"
  unfolding first_fit_def by (metis nat_neq_iff)

text \<open>One step of the search, on a used and on a free block.\<close>

lemma pmalloc_search_end:
  assumes "nframes s < 4294967296"
  shows "pmalloc_search s blocks (of_nat (nframes s)) f p = None"
proof -
  have "unat (of_nat (nframes s) :: u32) = nframes s" using assms by (simp add: unat_of_nat32)
  then have "\<not> of_nat (nframes s) < pmm_map_size s * 8"
    using assms by (simp add: word_less_nat_alt unat_nframes)
  then show ?thesis by (simp add: pmalloc_search.simps [of s blocks "of_nat (nframes s)"])
qed

lemma pmalloc_search_step:
  assumes N: "nframes s < 4294967296" and i: "i < nframes s"
  shows "used s i \<Longrightarrow> pmalloc_search s blocks (of_nat i) f p = pmalloc_search s blocks (of_nat (Suc i)) 0 0"
    and "\<not> used s i \<Longrightarrow> pmalloc_search s blocks (of_nat i) f p =
      (let p' = (if f = 0 then of_nat i else p)
       in if f + 1 = blocks then Some (p', f + 1) else pmalloc_search s blocks (of_nat (Suc i)) (f + 1) p')"
proof -
  have "unat (of_nat i :: u32) = i" using N i by (simp add: unat_of_nat32)
  then have guard: "of_nat i < pmm_map_size s * 8"
    using N i by (simp add: word_less_nat_alt unat_nframes)
  have ci: "(ucast (of_nat i :: u32) :: u64) = of_nat i"
    using N i by (simp add: ucast_of_nat_u32)
  have reg: "PMM_REGU s (of_nat i) = used s i"
    using N i by (simp add: PMM_REGU_used)
  show "used s i \<Longrightarrow> pmalloc_search s blocks (of_nat i) f p = pmalloc_search s blocks (of_nat (Suc i)) 0 0"
    and "\<not> used s i \<Longrightarrow> pmalloc_search s blocks (of_nat i) f p =
      (let p' = (if f = 0 then of_nat i else p)
       in if f + 1 = blocks then Some (p', f + 1) else pmalloc_search s blocks (of_nat (Suc i)) (f + 1) p')"
    using guard by (simp_all add: pmalloc_search.simps [of s blocks "of_nat i"] ci reg add.commute Let_def)
qed

lemma pmalloc_search_inv:
  assumes N: "nframes s < 4294967296" and "f < unat blocks" "f \<le> i" "i \<le> nframes s"
    and "free_run s (i - f) f"
    and "\<And>q. q < i - f \<Longrightarrow> \<exists>k. q \<le> k \<and> k < q + unat blocks \<and> k < i \<and> used s k"
    and "f > 0 \<Longrightarrow> p = of_nat (i - f)"
  shows "case pmalloc_search s blocks (of_nat i) (of_nat f) p of
      None \<Rightarrow> \<forall>q. \<not> first_fit s (unat blocks) q
    | Some (p', f') \<Rightarrow> f' = blocks \<and> (\<exists>q. p' = of_nat q \<and> first_fit s (unat blocks) q)"
  using assms(2-)
proof (induction "nframes s - i" arbitrary: i f p)
  case 0
  then have i: "i = nframes s" by simp
  have "\<not> first_fit s (unat blocks) q" for q
  proof
    assume fit: "first_fit s (unat blocks) q"
    then have "q < i - f" using "0.prems"(1) i by (auto simp: first_fit_def)
    from "0.prems"(5) [OF this] fit show False
      by (auto simp: first_fit_def free_run_def)
  qed
  then show ?case by (simp add: i pmalloc_search_end [OF N])
next
  case (Suc d)
  then have i: "i < nframes s" by simp
  show ?case
  proof (cases "used s i")
    case True
    have "\<exists>k. q \<le> k \<and> k < q + unat blocks \<and> k < Suc i \<and> used s k" if "q < Suc i - 0" for q
    proof (cases "q < i - f")
      case True
      then show ?thesis using Suc.prems(5) [OF True] by auto
    next
      case False
      then show ?thesis using \<open>used s i\<close> that Suc.prems(1,2) by (intro exI [of _ i]) auto
    qed
    moreover have "free_run s (Suc i - 0) 0" "d = nframes s - Suc i" "0 < unat blocks"
      using Suc.hyps(2) Suc.prems(1) by (auto simp: free_run_def)
    ultimately show ?thesis
      using Suc.hyps(1) [of "Suc i" 0 0] i pmalloc_search_step(1) [OF N i True, of blocks "of_nat f" p] by simp
  next
    case False
    have "f < 4294967296" "Suc f < 4294967296" using N i Suc.prems(2) by linarith+
    note f = this [THEN unat_of_nat32]
    have "of_nat f = (0 :: u32) \<longleftrightarrow> f = 0"
    proof
      assume "of_nat f = (0 :: u32)"
      then have "unat (of_nat f :: u32) = 0" by simp
      then show "f = 0" by (simp only: f(1))
    qed simp
    then have p: "(if of_nat f = (0 :: u32) then of_nat i else p) = of_nat (i - f)"
      using Suc.prems(6) by simp
    have eq: "of_nat f + 1 = blocks \<longleftrightarrow> Suc f = unat blocks"
      using f(2) by (metis Suc_eq_plus1 of_nat_1 of_nat_add word_unat_eq_iff)
    have run: "free_run s (i - f) (Suc f)"
      using Suc.prems(2,4) False by (auto simp: free_run_def less_Suc_eq)
    note step = pmalloc_search_step(2) [OF N i False, of blocks "of_nat f" p, unfolded p Let_def eq]
    show ?thesis
    proof (cases "Suc f = unat blocks")
      case True
      have "first_fit s (unat blocks) (i - f)"
        using run True i Suc.prems(2,5) by (fastforce simp: first_fit_def free_run_def)
      then show ?thesis using step True eq by auto
    next
      case more: False
      then show ?thesis
        using Suc.hyps(1) [of "Suc i" "Suc f" "of_nat (i - f)"] Suc.hyps(2) Suc.prems run i step
        by (fastforce simp: less_Suc_eq add.commute)
    qed
  qed
qed

lemma pmalloc_search_cases:
  assumes "nframes s < 4294967296" "blocks \<noteq> 0"
  shows "case pmalloc_search s blocks 0 0 0 of
      None \<Rightarrow> \<forall>q. \<not> first_fit s (unat blocks) q
    | Some (p, f) \<Rightarrow> f = blocks \<and> (\<exists>q. p = of_nat q \<and> first_fit s (unat blocks) q)"
proof -
  have "0 < unat blocks"
    using assms(2) by (simp add: unat_gt_0)
  then show ?thesis
    using pmalloc_search_inv [OF assms(1), of 0 blocks 0 0] by (simp add: free_run_def)
qed

lemma pmalloc_search_None:
  assumes "nframes s < 4294967296" "blocks \<noteq> 0" "\<And>p. \<not> first_fit s (unat blocks) p"
  shows "pmalloc_search s blocks 0 0 0 = None"
proof (cases "pmalloc_search s blocks 0 0 0")
  case (Some r)
  with pmalloc_search_cases [OF assms(1,2)] assms(3) show ?thesis
    by (cases r) simp
qed

lemma pmalloc_search_Some:
  assumes "nframes s < 4294967296" "blocks \<noteq> 0" "first_fit s (unat blocks) p"
  shows "pmalloc_search s blocks 0 0 0 = Some (of_nat p, blocks)"
proof (cases "pmalloc_search s blocks 0 0 0")
  case None
  with pmalloc_search_cases [OF assms(1,2)] assms(3) show ?thesis
    by simp
next
  case (Some r)
  obtain p' f' where r: "r = (p', f')" by (cases r)
  have "f' = blocks \<and> (\<exists>q. p' = of_nat q \<and> first_fit s (unat blocks) q)"
    using pmalloc_search_cases [OF assms(1,2)] by (simp add: Some r)
  with first_fit_unique [OF assms(3)] show ?thesis
    by (auto simp: Some r)
qed

lemma first_fit_ex:
  assumes "p + n \<le> nframes s" "free_run s p n"
  shows "\<exists>q\<le>p. first_fit s n q"
proof -
  obtain q where "free_run s q n" "\<And>r. r < q \<Longrightarrow> \<not> free_run s r n"
    using exists_least_iff [of "\<lambda>q. free_run s q n"] assms(2) by blast
  moreover from this(2) have "q \<le> p"
    using assms(2) by (meson not_le)
  ultimately show ?thesis
    using assms(1) by (auto simp: first_fit_def)
qed

section \<open>What one call of \<open>pmalloc\<close> does\<close>

lemma push_bit_frame: "push_bit 12 (of_nat p :: u64) = of_nat (4096 * p)"
  by (simp add: push_bit_eq_mult mult.commute)

lemma pmalloc_fit:
  assumes "nframes s < 4294967296" "blocks \<noteq> 0" "first_fit s (unat blocks) p"
  shows "pmalloc blocks s =
    (of_nat (4096 * p), memset_st (of_nat (4096 * p)) 0 4096 (pmm_ureg (of_nat p) blocks s))"
proof -
  have "p < 4294967296"
    using assms(1,3) by (simp add: first_fit_def)
  then have "(ucast (of_nat p :: u64) :: u32) = of_nat p"
    by (simp add: unsigned_of_nat take_bit_nat_eq_self)
  then show ?thesis
    using pmalloc_search_Some [OF assms] by (simp add: pmalloc_def push_bit_frame Let_def)
qed

lemma pmalloc_none:
  assumes "nframes s < 4294967296" "blocks \<noteq> 0" "\<And>p. \<not> first_fit s (unat blocks) p"
  shows "pmalloc blocks s = (0, s)"
  using pmalloc_search_None [OF assms] by (simp add: pmalloc_def)

section \<open>The allocator invariant\<close>

text \<open>
  The manager is well formed when its frame count fits the 32-bit loop counter, the bitmap is a
  block of distinct physical bytes, the frames it manages are mapped at their physical addresses
  (the boot loader's identity map, which \<open>pmalloc\<close> zeroes them through), and frame 0 and the frames
  that hold the bitmap are marked in use.
\<close>

definition pmm_ok :: "'a pmm_scheme \<Rightarrow> bool" where
  "pmm_ok s \<longleftrightarrow>
     0 < nframes s \<and> nframes s < 4294967296 \<and>
     inj_at (vtr s) (pmm_map s) (unat (pmm_map_size s)) \<and>
     (\<forall>a. frame_of a < nframes s \<longrightarrow> vtr s a = a) \<and>
     used s 0 \<and>
     (\<forall>p\<in>bm_region s. frame_of p < nframes s \<longrightarrow> used s (frame_of p))"

lemma frame_of_nat:
  assumes "f < 4294967296" "i < 4096"
  shows "unat (of_nat (4096 * f) + of_nat i :: u64) = 4096 * f + i" "frame_of (of_nat (4096 * f) + of_nat i) = f"
proof -
  have "(of_nat (4096 * f) + of_nat i :: u64) = of_nat (4096 * f + i)" by simp
  then show u: "unat (of_nat (4096 * f) + of_nat i :: u64) = 4096 * f + i"
    using assms by (simp only: unat_of_nat64)
  have "(4096 * f + i) div 4096 = f" using assms(2) by simp
  then show "frame_of (of_nat (4096 * f) + of_nat i) = f"
    unfolding frame_of_def u .
qed

lemma frame_of_nat0: "f < 4294967296 \<Longrightarrow> frame_of (of_nat (4096 * f)) = f"
  using frame_of_nat(2) [of f 0] by simp

lemma frame_bytes:
  assumes "\<And>a. frame_of a = f \<Longrightarrow> tr a = a" "f < 4294967296"
  shows "foot tr (of_nat (4096 * f)) 4096 = {p. frame_of p = f}"
proof (rule set_eqI)
  fix p
  show "p \<in> foot tr (of_nat (4096 * f)) 4096 \<longleftrightarrow> p \<in> {p. frame_of p = f}"
  proof
    assume "p \<in> foot tr (of_nat (4096 * f)) 4096"
    then show "p \<in> {p. frame_of p = f}"
      using assms frame_of_nat(2) [OF assms(2)] by (auto simp: foot_def)
  next
    assume "p \<in> {p. frame_of p = f}"
    then have f: "frame_of p = f" by simp
    define i where "i = unat p mod 4096"
    have "unat p = 4096 * f + i" and i: "i < 4096"
      using f by (auto simp: frame_of_def i_def)
    then have p: "p = of_nat (4096 * f) + of_nat i"
      by (metis of_nat_add of_nat_unat ucast_id)
    have "tr (of_nat (4096 * f) + of_nat i) \<in> foot tr (of_nat (4096 * f)) 4096"
      using i by (rule in_foot)
    then show "p \<in> foot tr (of_nat (4096 * f)) 4096"
      using p assms(1) [OF f] by simp
  qed
qed

lemma mem_memset_st:
  "mem (memset_st d v n s) p = (if p \<in> foot (vtr s) d (unat n) then v else mem s p)"
  by (simp add: memset_st_def memset_eq)

lemma used_iff_mem: "used s k \<longleftrightarrow> bit (mem s (vtr s (pmm_map s + of_nat (k div 8)))) (k mod 8)"
  by (simp add: used_def ld8_def)

text \<open>One frame, allocated.\<close>

lemma pmalloc_1_fit:
  assumes ok: "pmm_ok s" and fit: "first_fit s 1 f"
  defines "t \<equiv> snd (pmalloc 1 s)"
  shows "fst (pmalloc 1 s) = of_nat (4096 * f)"
    and "same_but_mem s t"
    and "k < nframes s \<Longrightarrow> used t k \<longleftrightarrow> used s k \<or> k = f"
    and "mem t p = (if frame_of p = f then 0
                    else if p \<in> bm_region s then mem t p else mem s p)"
    and "f < nframes s" "\<not> used s f" "f \<noteq> 0"
proof -
  let ?N = "unat (pmm_map_size s)" and ?u = "pmm_ureg (of_nat f) 1 s"
  show fN: "f < nframes s" and free: "\<not> used s f"
    using fit by (auto simp: first_fit_def free_run_def)
  then show "f \<noteq> 0" using ok by (metis pmm_ok_def)
  have N: "nframes s < 4294967296" and inj: "inj_at (vtr s) (pmm_map s) ?N"
    and ident: "\<And>a. frame_of a < nframes s \<Longrightarrow> vtr s a = a"
    and bm: "\<And>p. p \<in> bm_region s \<Longrightarrow> frame_of p < nframes s \<Longrightarrow> used s (frame_of p)"
    using ok by (auto simp: pmm_ok_def)
  have call: "pmalloc 1 s = (of_nat (4096 * f), memset_st (of_nat (4096 * f)) 0 4096 ?u)"
    using pmalloc_fit [OF N, of 1 f] fit by simp
  then show "fst (pmalloc 1 s) = of_nat (4096 * f)" by simp
  have t: "t = memset_st (of_nat (4096 * f)) 0 4096 ?u"
    by (simp add: t_def call)
  show same: "same_but_mem s t"
    unfolding t_def by (rule pmalloc_same)
  have u: "vtr ?u = vtr s" "pmm_map ?u = pmm_map s"
    using same_but_mem_machine [OF pmm_ureg_same [of s "of_nat f" 1]]
      same_but_mem_pmm [OF pmm_ureg_same [of s "of_nat f" 1]] by simp_all
  have bytes: "foot (vtr s) (of_nat (4096 * f)) 4096 = {p. frame_of p = f}"
    using fN N ident by (intro frame_bytes) auto
  have memt: "mem t p = (if frame_of p = f then 0 else mem ?u p)" for p
    unfolding t mem_memset_st u using bytes by (simp del: of_nat_mult)
  have f32: "unat (of_nat f :: u32) = f"
    using fN N by (simp add: unat_of_nat32)
  have "mem ?u p = mem s p" if "p \<notin> bm_region s" for p
    using that inj N fN f32 by (intro mem_pmm_ureg [of s ?N]) (auto simp: nframes_def)
  then show "mem t p = (if frame_of p = f then 0 else if p \<in> bm_region s then mem t p else mem s p)"
    by (simp add: memt)
  show "used t k \<longleftrightarrow> used s k \<or> k = f" if k: "k < nframes s"
  proof -
    have "vtr s (pmm_map s + of_nat (k div 8)) \<in> bm_region s"
      using k by (intro in_foot) (auto simp: nframes_def)
    then have "frame_of (vtr s (pmm_map s + of_nat (k div 8))) \<noteq> f"
      using bm fN free by metis
    then have "used t k = used ?u k"
      using same_but_mem_machine [OF same] same_but_mem_pmm [OF same] u
      by (simp add: used_iff_mem memt)
    also have "\<dots> \<longleftrightarrow> used s k \<or> k = f"
      using used_pmm_ureg_1 [OF inj, of "of_nat f" k] k fN N f32 by (simp add: nframes_def)
    finally show ?thesis .
  qed
qed

lemma pmalloc_1_cases:
  assumes "pmm_ok s"
  obtains (none) "pmalloc 1 s = (0, s)" "\<And>k. k < nframes s \<Longrightarrow> used s k"
  | (fit) f where "first_fit s 1 f"
proof (cases "\<exists>f. first_fit s 1 f")
  case True
  then show ?thesis using fit by blast
next
  case False
  have "nframes s < 4294967296"
    using assms by (simp add: pmm_ok_def)
  then have "pmalloc 1 s = (0, s)"
    using False by (intro pmalloc_none) auto
  moreover have "used s k" if "k < nframes s" for k
  proof (rule ccontr)
    assume "\<not> used s k"
    then have "free_run s k 1" by (auto simp: free_run_def less_Suc_eq)
    then have "\<exists>f\<le>k. first_fit s 1 f"
      using that by (intro first_fit_ex) auto
    with False show False by blast
  qed
  ultimately show ?thesis by (rule none)
qed

lemma pmm_ok_cong:
  assumes ok: "pmm_ok s" and same: "same_but_mem s t"
    and u: "\<And>k. k < nframes s \<Longrightarrow> used t k = (used s k \<and> k \<notin> F \<or> k \<in> G)"
    and F: "0 \<notin> F" "\<And>p. p \<in> bm_region s \<Longrightarrow> frame_of p \<notin> F"
  shows "pmm_ok t"
proof -
  have eq: "vtr t = vtr s" "pmm_map t = pmm_map s" "pmm_map_size t = pmm_map_size s" "nframes t = nframes s"
    using same_but_mem_machine [OF same] same_but_mem_pmm [OF same] by simp_all
  have "used t k" if "used s k" "k < nframes s" "k \<notin> F" for k
    using that u by simp
  then show ?thesis
    using ok F unfolding pmm_ok_def eq by blast
qed

lemma pmalloc_1_ok:
  assumes "pmm_ok s"
  shows "pmm_ok (snd (pmalloc 1 s))"
  using assms
proof (cases rule: pmalloc_1_cases)
  case none
  then show ?thesis using assms by simp
next
  case (fit f)
  show ?thesis
    using pmm_ok_cong [OF assms pmalloc_1_fit(2) [OF assms fit], of "{}" "{f}"]
      pmalloc_1_fit(3) [OF assms fit] by simp
qed

lemma ALIGN_shift: "ALIGN a = push_bit 10 (drop_bit 10 a)"
proof (rule bit_word_eqI)
  fix n
  assume n: "n < LENGTH(64)"
  have m: "(0x3FF :: u64) = mask 10" by (simp add: mask_eq_exp_minus_1)
  show "bit (ALIGN a) n = bit (push_bit 10 (drop_bit 10 a)) n"
    unfolding ALIGN_def m using n by (auto simp: bit_and_iff bit_not_iff bit_mask_iff bit_push_bit_iff bit_drop_bit_eq)
qed

lemma unat_ALIGN: "unat (ALIGN a) = 1024 * (unat a div 1024)"
proof -
  have "unat (ALIGN a) = unat (drop_bit 10 a) * 1024 mod 18446744073709551616"
    by (simp add: ALIGN_shift push_bit_eq_mult unat_word_ariths)
  also have "unat (drop_bit 10 a) = unat a div 1024"
    unfolding unat_drop_bit_eq by (simp add: drop_bit_eq_div)
  finally show ?thesis
    using unat_lt_u64 [of a] by (simp add: mult.commute)
qed

lemma TOBLOCKS_frame: "unat (TOBLOCKS a) = frame_of a"
proof -
  have "unat (TOBLOCKS a) = unat a div 1024 div 4"
    by (simp add: TOBLOCKS_def unat_div_distrib unat_ALIGN)
  then show ?thesis
    by (simp add: frame_of_def flip: div_mult2_eq)
qed

lemma unat_pfree_block:
  "frame_of a < 4294967296 \<Longrightarrow> unat (ucast (TOBLOCKS a) :: u32) = frame_of a"
  by (simp add: unsigned_ucast_eq TOBLOCKS_frame take_bit_nat_eq_self)

lemma pfree_same: "same_but_mem s (pfree a n s)"
  by (simp add: pfree_def pmm_unreg_same)

lemma pfree_1:
  assumes ok: "pmm_ok s" and a: "frame_of a < nframes s"
  shows "k < nframes s \<Longrightarrow> used (pfree a 1 s) k \<longleftrightarrow> used s k \<and> k \<noteq> frame_of a"
    and "p \<notin> bm_region s \<Longrightarrow> mem (pfree a 1 s) p = mem s p"
    and "frame_of a \<noteq> 0 \<Longrightarrow> frame_of a \<notin> frame_of ` bm_region s \<Longrightarrow> pmm_ok (pfree a 1 s)"
proof -
  let ?N = "unat (pmm_map_size s)"
  have inj: "inj_at (vtr s) (pmm_map s) ?N" and N: "8 * ?N \<le> 4294967296"
    and b: "unat (ucast (TOBLOCKS a) :: u32) = frame_of a"
    using ok a by (simp_all add: pmm_ok_def nframes_def unat_pfree_block)
  have u: "used (pfree a 1 s) k \<longleftrightarrow> used s k \<and> k \<noteq> frame_of a" if "k < nframes s" for k
    using used_pmm_unreg_1 [OF inj N, of "ucast (TOBLOCKS a)" k] that a b by (simp add: pfree_def nframes_def)
  then show "k < nframes s \<Longrightarrow> used (pfree a 1 s) k \<longleftrightarrow> used s k \<and> k \<noteq> frame_of a" .
  show "p \<notin> bm_region s \<Longrightarrow> mem (pfree a 1 s) p = mem s p"
    using mem_pmm_unreg [OF inj N, of "ucast (TOBLOCKS a)" 1 p] a b by (simp add: pfree_def nframes_def)
  show "pmm_ok (pfree a 1 s)" if "frame_of a \<noteq> 0" "frame_of a \<notin> frame_of ` bm_region s"
    by (rule pmm_ok_cong [OF ok pfree_same, of a 1 "{frame_of a}" "{}"]) (use u that in \<open>auto simp: image_iff\<close>)
qed

section \<open>The manager provides frames\<close>

lemma pmalloc_1_zero_iff:
  assumes "pmm_ok s" "pmalloc 1 s = (a, t)"
  shows "a = 0 \<longleftrightarrow> (\<forall>k<nframes s. used s k)"
    and "a = 0 \<Longrightarrow> t = s"
    and "a \<noteq> 0 \<Longrightarrow> first_fit s 1 (frame_of a) \<and> a = of_nat (4096 * frame_of a)"
proof -
  have "(a = 0 \<longleftrightarrow> (\<forall>k<nframes s. used s k)) \<and> (a = 0 \<longrightarrow> t = s) \<and>
    (a \<noteq> 0 \<longrightarrow> first_fit s 1 (frame_of a) \<and> a = of_nat (4096 * frame_of a))"
    using assms(1)
  proof (cases rule: pmalloc_1_cases)
    case none
    then show ?thesis using assms(2) by auto
  next
    case (fit f)
    note f = pmalloc_1_fit(5-7) [OF assms(1) fit]
    have lt: "f < 4294967296" using f(1) assms(1) by (simp add: pmm_ok_def)
    have a: "a = of_nat (4096 * f)"
      using pmalloc_1_fit(1) [OF assms(1) fit] assms(2) by simp
    have fa: "frame_of a = f"
      using lt frame_of_nat0 by (simp only: a)
    then have "a \<noteq> 0"
      using f(3) by (auto simp: frame_of_def)
    then show ?thesis using f fit a fa by auto
  qed
  then show "a = 0 \<longleftrightarrow> (\<forall>k<nframes s. used s k)" "a = 0 \<Longrightarrow> t = s"
    "a \<noteq> 0 \<Longrightarrow> first_fit s 1 (frame_of a) \<and> a = of_nat (4096 * frame_of a)" by simp_all
qed

lemma pmalloc_1_some:
  assumes ok: "pmm_ok s" and a: "pmalloc 1 s = (a, t)" "a \<noteq> 0"
  shows "k < nframes s \<Longrightarrow> used t k \<longleftrightarrow> used s k \<or> k = frame_of a"
    and "mem t p = (if frame_of p = frame_of a then 0
                    else if p \<in> bm_region s then mem t p else mem s p)"
    and "frame_of a < nframes s" "\<not> used s (frame_of a)"
proof -
  have fit: "first_fit s 1 (frame_of a)" and t: "snd (pmalloc 1 s) = t"
    using pmalloc_1_zero_iff(3) [OF ok a] a(1) by simp_all
  note f = pmalloc_1_fit(3-6) [OF ok fit, unfolded t]
  show "k < nframes s \<Longrightarrow> used t k \<longleftrightarrow> used s k \<or> k = frame_of a" by (rule f(1))
  show "mem t p = (if frame_of p = frame_of a then 0
                   else if p \<in> bm_region s then mem t p else mem s p)" by (rule f(2))
  show "frame_of a < nframes s" "\<not> used s (frame_of a)" by (fact f)+
qed

lemma pmalloc_1_contract:
  assumes ok: "pmm_ok s" and c: "pmalloc 1 s = (a, t)"
  shows "pmm_ok t" "nframes t = nframes s \<and> bm_region t = bm_region s"
    and "k < nframes s \<Longrightarrow> used t k \<longleftrightarrow> used s k \<or> a \<noteq> 0 \<and> k = frame_of a"
    and "a \<noteq> 0 \<Longrightarrow> frame_of p = frame_of a \<Longrightarrow> mem t p = 0"
    and "p \<notin> bm_region s \<Longrightarrow> a = 0 \<or> frame_of p \<noteq> frame_of a \<Longrightarrow> mem t p = mem s p"
proof -
  have same: "same_but_mem s t" using pmalloc_same [of s 1] c by simp
  show "pmm_ok t" using pmalloc_1_ok [OF ok] c by simp
  show "nframes t = nframes s \<and> bm_region t = bm_region s"
    using same_but_mem_pmm [OF same] same_but_mem_machine [OF same] by simp
  show "used t k \<longleftrightarrow> used s k \<or> a \<noteq> 0 \<and> k = frame_of a" if "k < nframes s"
    using pmalloc_1_some(1) [OF ok c _ that] pmalloc_1_zero_iff(2) [OF ok c] by (cases "a = 0") simp_all
  show "mem t p = 0" if "a \<noteq> 0" "frame_of p = frame_of a"
    using pmalloc_1_some(2) [OF ok c that(1), of p] that(2) by simp
  show "mem t p = mem s p" if "p \<notin> bm_region s" "a = 0 \<or> frame_of p \<noteq> frame_of a"
    using pmalloc_1_some(2) [OF ok c, of p] pmalloc_1_zero_iff(2) [OF ok c] that by (cases "a = 0") simp_all
qed

lemma pmalloc_1_frame:
  assumes ok: "pmm_ok s" and c: "pmalloc 1 s = (a, t)" and "a \<noteq> 0"
  shows "a = of_nat (4096 * frame_of a) \<and> frame_of a < nframes s \<and> \<not> used s (frame_of a)"
  using pmalloc_1_zero_iff(3) [OF assms] pmalloc_1_some(3,4) [OF assms] by blast

lemma pmm_okD:
  "pmm_ok s \<Longrightarrow> nframes s < 4294967296"
  "pmm_ok s \<Longrightarrow> used s 0"
  "pmm_ok s \<Longrightarrow> p \<in> bm_region s \<Longrightarrow> frame_of p < nframes s \<Longrightarrow> used s (frame_of p)"
  "pmm_ok s \<Longrightarrow> frame_of p < nframes s \<Longrightarrow> vtr s p = p"
  by (simp_all add: pmm_ok_def)

lemma pfree_1_ok:
  "pmm_ok s \<Longrightarrow> frame_of a < nframes s \<Longrightarrow> frame_of a \<noteq> 0 \<Longrightarrow> frame_of a \<notin> frame_of ` bm_region s \<Longrightarrow>
   pmm_ok (pfree a 1 s) \<and> nframes (pfree a 1 s) = nframes s"
  using pfree_1(3) same_but_mem_pmm [OF pfree_same] by blast

lemma pmalloc_1_full: "pmm_ok s \<Longrightarrow> pmalloc 1 s = (0, t) \<Longrightarrow> k < nframes s \<Longrightarrow> used s k"
  using pmalloc_1_zero_iff(1) by blast

interpretation pm: frame_pool "pmalloc 1" used nframes mem "\<lambda>s. bm_region s" pmm_ok "\<lambda>a. pfree a 1"
proof (unfold_locales, goal_cases)
  case 6 then show ?case using pmalloc_1_zero_iff(2) by blast
qed (rule pmm_okD pmalloc_1_full pmalloc_1_contract pmalloc_1_frame pfree_1(1,2) pfree_1_ok; assumption)+

section \<open>Properties of the frame allocator\<close>

definition pmm_sample :: pmm where
  "pmm_sample = \<lparr>mem = (\<lambda>a. if a = 0x100000 then 1 else 0), xlat = (\<lambda>_ a. a), cr3 = 0, cr2 = 0,
     iflag = True, idtr = (0, 0), inport = (\<lambda>_ _. 0), nreads = 0, outs = [], locals = (\<lambda>_. 0),
     cursorX = 0, cursorY = 0, fb_addr = 0x100000, fb_width = 16, fb_height = 32, fb_pitch = 64,
     Xmax = 2, Ymax = 2, defAtt = 0x0f, font_base = 0x200000, panicked = False, processnum = 0,
     pmm_map = 0x100000, hhdm = 0, ramb = 0x8000, pmm_map_size = 1, slabH = 0\<rparr>"

lemma pmm_sample_simps [simp]:
  "pmm_map pmm_sample = 0x100000" "pmm_map_size pmm_sample = 1" "nframes pmm_sample = 8"
  "xlat pmm_sample = (\<lambda>_ a. a)" "slabH pmm_sample = 0"
  by (simp_all add: pmm_sample_def nframes_def)

lemma used_sample [simp]: "k < 8 \<Longrightarrow> used pmm_sample k \<longleftrightarrow> k = 0"
  by (simp add: used_iff_mem) (simp add: pmm_sample_def bit_1_iff)

lemma pmm_ok_sample [simp]: "pmm_ok pmm_sample"
  by (simp add: pmm_ok_def inj_at_id foot_Suc frame_of_def)

lemma first_fit_sample: "0 < n \<Longrightarrow> n < 8 \<Longrightarrow> first_fit pmm_sample n 1"
  by (auto simp: first_fit_def free_run_def)

text \<open>
  C3. \<open>pmalloc\<close> is first fit, and always returns: the address of the lowest run of that many free
  frames below \<open>pmm_map_size * 8\<close>, or the null pointer, with nothing changed, when there is no such run.
  The result alone does not tell the two apart: it is null when there is no run, and also when the
  lowest run starts at frame 0.
\<close>

theorem pmalloc_first_fit:
  assumes "nframes s < 4294967296" "blocks \<noteq> 0"
  shows "(if \<exists>p. p + unat blocks \<le> nframes s \<and> free_run s p (unat blocks)
      then \<exists>p. first_fit s (unat blocks) p \<and> fst (pmalloc blocks s) = of_nat (4096 * p)
      else pmalloc blocks s = (0, s)) \<and>
    (fst (pmalloc blocks s) = 0 \<longleftrightarrow>
      \<not> (\<exists>p. p + unat blocks \<le> nframes s \<and> free_run s p (unat blocks)) \<or> first_fit s (unat blocks) 0)"
proof (cases "\<exists>p. first_fit s (unat blocks) p")
  case True
  then obtain p where p: "first_fit s (unat blocks) p" ..
  have "fst (pmalloc blocks s) = of_nat (4096 * p)"
    using pmalloc_fit [OF assms p] by simp
  moreover have "of_nat (4096 * p) = (0 :: u64) \<longleftrightarrow> p = 0"
    using p assms(1) frame_of_nat0 [of p] by (auto simp: first_fit_def frame_of_def)
  ultimately show ?thesis
    using p first_fit_unique [OF p, of 0] by (auto simp: first_fit_def)
next
  case False
  then have "\<not> (p + unat blocks \<le> nframes s \<and> free_run s p (unat blocks))" for p
    using first_fit_ex [of p "unat blocks" s] by blast
  then show ?thesis
    using pmalloc_none [OF assms] False by auto
qed

theorem pmalloc_first_fit_witness:
  "fst (pmalloc 2 pmm_sample) = 0x1000 \<and> fst (pmalloc 2 pmm_sample) \<noteq> 0"
proof -
  have fit: "first_fit pmm_sample (unat (2 :: u32)) 1" using first_fit_sample [of 2] by simp
  then have run: "\<exists>p. p + unat (2 :: u32) \<le> nframes pmm_sample \<and> free_run pmm_sample p (unat (2 :: u32))"
    unfolding first_fit_def by blast
  with pmalloc_first_fit [of pmm_sample 2] obtain p where
    p: "first_fit pmm_sample (unat (2 :: u32)) p" "fst (pmalloc 2 pmm_sample) = of_nat (4096 * p)" by auto
  have "p = 1" "\<not> first_fit pmm_sample (unat (2 :: u32)) 0"
    using first_fit_unique [OF fit] p(1) by fastforce+
  then show ?thesis using p(2) run pmalloc_first_fit [of pmm_sample 2] by simp
qed

text \<open>
  C4. Single frames are handed out at most once, when the manager is well formed (\<open>pmm_ok\<close>: above all,
  frame 0 and the bitmap's own frames are marked in use, which \<open>pmm_init\<close> does not see to in the higher
  half; C37 shows what happens then). However many single-frame calls of \<open>pmalloc\<close> follow each other,
  null results among them or not, the frames of the non-null results are pairwise different, were all
  free at the start, and are exactly what the bitmap gained; and as many calls succeed as there are
  free frames for.
\<close>

theorem pmalloc_frames_distinct:
  assumes "pmm_ok s" "alloc_many (pmalloc 1) n s = (as, t)" "fs = map frame_of (filter (\<lambda>a. a \<noteq> 0) as)"
  shows "nframes t = nframes s \<and> distinct fs \<and> set fs \<subseteq> {k. k < nframes s \<and> \<not> used s k} \<and>
    {k. k < nframes t \<and> \<not> used t k} = {k. k < nframes s \<and> \<not> used s k} - set fs \<and>
    length fs = min n (card {k. k < nframes s \<and> \<not> used s k})"
  using pm.alloc_many_granted [OF assms(1,2)] unfolding pm.granted_def pm.spare_def assms(3) by blast

theorem pmalloc_frames_distinct_witness:
  "\<exists>as t. alloc_many (pmalloc 1) 9 pmm_sample = (as, t) \<and>
     distinct (map frame_of (filter (\<lambda>a. a \<noteq> 0) as)) \<and> length (filter (\<lambda>a. a \<noteq> 0) as) = 7 \<and> (\<forall>k<8. used t k)"
proof -
  obtain as t where many: "alloc_many (pmalloc 1) 9 pmm_sample = (as, t)" by fastforce
  have free: "{k. k < nframes pmm_sample \<and> \<not> used pmm_sample k} = {1..<8}" by auto
  note P = pmalloc_frames_distinct [OF pmm_ok_sample many refl, unfolded free]
  let ?fs = "map frame_of (filter (\<lambda>a. a \<noteq> 0) as)"
  have "card (set ?fs) = card {1..<8 :: nat}" using P by (simp only: distinct_card) simp
  then have "set ?fs = {1..<8}" using P card_subset_eq [of "{1..<8 :: nat}" "set ?fs"] by blast
  then have "{k. k < 8 \<and> \<not> used t k} = {}" using P by simp
  then show ?thesis using P many by auto
qed

text \<open>
  C5. Giving a single frame back undoes taking it: after \<open>pfree\<close> of the address a single-frame
  \<open>pmalloc\<close> returned, the bitmap is what it was, the manager is well formed, and only the bytes of
  that frame (and of the bitmap) may differ.
\<close>

theorem pmalloc_pfree_round_trip:
  assumes "pmm_ok s" "pmalloc 1 s = (a, t)" "a \<noteq> 0"
  shows "pmm_ok (pfree a 1 t) \<and> (\<forall>k<nframes s. used (pfree a 1 t) k = used s k) \<and>
    (\<forall>p. p \<notin> bm_region s \<and> frame_of p \<noteq> frame_of a \<longrightarrow> mem (pfree a 1 t) p = mem s p)"
  using assms by (rule pm.alloc_free_round_trip)

theorem pmalloc_pfree_round_trip_witness:
  "let (a, t) = pmalloc 1 pmm_sample in a = 4096 \<and> pmm_ok (pfree a 1 t) \<and>
    (\<forall>k<nframes pmm_sample. used (pfree a 1 t) k = used pmm_sample k)"
proof -
  obtain a t where at: "pmalloc 1 pmm_sample = (a, t)" by fastforce
  then have "a = 4096"
    using pmalloc_1_fit(1) [OF pmm_ok_sample first_fit_sample [of 1]] by simp
  then show ?thesis
    using pmalloc_pfree_round_trip [OF pmm_ok_sample at] at by simp
qed

text \<open>A run of frames, marked.\<close>

lemma used_pmalloc_fit:
  assumes ok: "pmm_ok s" and fit: "first_fit s (unat blocks) p" and b: "blocks \<noteq> 0" and k: "k < nframes s"
  shows "used (snd (pmalloc blocks s)) k \<longleftrightarrow>
    used s k \<or> (k mod 8 = p mod 8 \<and> (\<exists>i<unat blocks. (p + i) div 8 = k div 8))"
proof -
  let ?N = "unat (pmm_map_size s)" and ?u = "pmm_ureg (of_nat p) blocks s"
  have N: "nframes s < 4294967296" and inj: "inj_at (vtr s) (pmm_map s) ?N"
    and ident: "\<And>a. frame_of a < nframes s \<Longrightarrow> vtr s a = a"
    using ok by (auto simp: pmm_ok_def)
  have fN: "p + unat blocks \<le> nframes s" "0 < unat blocks"
    using fit b by (auto simp: first_fit_def unat_gt_0)
  then have "p < nframes s" by simp
  then have free: "\<not> used s p" and p32: "p < 4294967296" "unat (of_nat p :: u32) = p"
    using fit fN N by (auto simp: first_fit_def free_run_def unat_of_nat32)
  have call: "snd (pmalloc blocks s) = memset_st (of_nat (4096 * p)) 0 4096 ?u"
    using pmalloc_fit [OF N b fit] by simp
  have same: "same_but_mem s ?u" "same_but_mem s (snd (pmalloc blocks s))"
    by (rule pmm_ureg_same, rule pmalloc_same)
  note eqs = same [THEN same_but_mem_machine] same [THEN same_but_mem_pmm]
  have bytes: "foot (vtr s) (of_nat (4096 * p)) 4096 = {q. frame_of q = p}"
    using \<open>p < nframes s\<close> N ident by (intro frame_bytes) auto
  have "vtr s (pmm_map s + of_nat (k div 8)) \<in> bm_region s"
    using k by (intro in_foot) (auto simp: nframes_def)
  then have "frame_of (vtr s (pmm_map s + of_nat (k div 8))) \<noteq> p"
    using pmm_okD(3) [OF ok] \<open>p < nframes s\<close> free by metis
  then have "used (snd (pmalloc blocks s)) k = used ?u k"
    using eqs bytes unfolding used_iff_mem call mem_memset_st by (simp del: of_nat_mult)
  also have "\<dots> \<longleftrightarrow> used s k \<or> (k mod 8 = p mod 8 \<and> (\<exists>i<unat blocks. (p + i) div 8 = k div 8))"
    using used_pmm_ureg [OF inj, of "of_nat p" blocks k] N fN k p32 by (simp add: nframes_def)
  finally show ?thesis .
qed

lemma two_frames_same_bit:
  "k mod 8 = (p :: nat) mod 8 \<and> (\<exists>i<2. (p + i) div 8 = k div 8) \<longleftrightarrow>
   k = p \<or> (k = p + 8 \<and> p mod 8 = 7)"
proof -
  have ex: "(\<exists>i<2. (p + i) div 8 = k div 8) \<longleftrightarrow> p div 8 = k div 8 \<or> Suc p div 8 = k div 8"
    by (auto simp: numeral_2_eq_2 less_Suc_eq)
  have p8: "(p + 8) div 8 = Suc (p div 8)" "(p + 8) mod 8 = p mod 8"
    using div_add_self2 [of 8 p] by simp_all
  have next8: "k mod 8 = p mod 8 \<and> Suc (p div 8) = k div 8 \<longleftrightarrow> k = p + 8"
    using div_mod8_eq [of k "p + 8"] unfolding p8 .
  have suc: "Suc p div 8 = (if p mod 8 = 7 then Suc (p div 8) else p div 8)"
    by (simp add: div_Suc mod_Suc)
  show ?thesis
    unfolding ex suc using div_mod8_eq [of k p] next8 by (cases "p mod 8 = 7") (simp_all only: if_True if_False simp_thms, blast+)
qed

text \<open>
  C24. A run of two frames is not safe: \<open>pmm_ureg\<close> sets the bit position of the first frame in
  every byte it visits, so \<open>pmalloc(2)\<close> does not mark the second frame of the run it returns, and when
  no lower frame is free the next \<open>pmalloc(1)\<close> hands that frame out a second time.
\<close>

theorem pmalloc_2_overlaps:
  assumes ok: "pmm_ok s" and fit: "first_fit s 2 p" and low: "\<forall>k<p. used s k"
  defines "t \<equiv> snd (pmalloc 2 s)"
  shows "fst (pmalloc 2 s) = of_nat (4096 * p) \<and> used t p \<and> \<not> used t (p + 1) \<and>
    fst (pmalloc 1 t) = of_nat (4096 * (p + 1))"
proof -
  have fit2: "first_fit s (unat (2 :: u32)) p" using fit by simp
  have N: "nframes s < 4294967296" using ok by (rule pmm_okD)
  have p: "p + 1 < nframes s" "\<not> used s p" "\<not> used s (p + 1)"
    using fit by (auto simp: first_fit_def free_run_def)
  have u: "used t k \<longleftrightarrow> used s k \<or> k = p \<or> (k = p + 8 \<and> p mod 8 = 7)" if "k < nframes s" for k
    using used_pmalloc_fit [OF ok fit2 _ that] two_frames_same_bit [of k p] by (simp add: t_def)
  have "nframes t = nframes s"
    using same_but_mem_pmm [OF pmalloc_same [of s 2]] by (simp add: t_def)
  moreover have "used t k" if "k < p + 1" for k
    using that low p u [of k] by (auto simp: less_Suc_eq)
  moreover have "\<not> used t (p + 1)"
    using u [of "p + 1"] p by simp
  ultimately have "first_fit t 1 (p + 1)"
    using p by (auto simp: first_fit_def free_run_def less_Suc_eq)
  then have "fst (pmalloc 1 t) = of_nat (4096 * (p + 1))"
    using pmalloc_fit [of t 1 "p + 1"] N \<open>nframes t = nframes s\<close> by simp
  then show ?thesis
    using pmalloc_fit [OF N _ fit2] u [of p] u [of "p + 1"] p by simp
qed

theorem pmalloc_2_overlaps_witness:
  "fst (pmalloc 2 pmm_sample) = 0x1000 \<and> fst (pmalloc 1 (snd (pmalloc 2 pmm_sample))) = 0x2000"
  using pmalloc_2_overlaps [OF pmm_ok_sample first_fit_sample [of 2]] by simp

section \<open>What start-up leaves\<close>

lemma bit_0xFF: "j < 8 \<Longrightarrow> bit (0xFF :: u8) j"
proof -
  have "(0xFF :: u8) = mask 8" by (simp add: mask_eq_exp_minus_1)
  then show "j < 8 \<Longrightarrow> bit (0xFF :: u8) j" by (simp only: bit_mask_iff) simp
qed

lemma mem_store8: "mem (store8 a v s) p = (if p = vtr s a then v else mem s p)"
  by (simp add: store8_def st8_def)

lemma fill_bitmap:
  fixes s :: "'a pmm_scheme" and n :: nat
  assumes "pm = pmm_map s"
  defines "t \<equiv> fold (\<lambda>i s. store8 (pmm_map s + of_nat i) 0xFF s) [0..<n] s"
  shows "same_but_mem s t" and "mem t p = (if p \<in> foot (vtr s) pm n then 0xFF else mem s p)"
proof -
  have "same_but_mem s (fold (\<lambda>i s. store8 (pmm_map s + of_nat i) 0xFF s) [0..<m] s) \<and>
    mem (fold (\<lambda>i s. store8 (pmm_map s + of_nat i) 0xFF s) [0..<m] s) p =
      (if p \<in> foot (vtr s) pm m then 0xFF else mem s p)" for m
  proof (induction m)
    case (Suc m)
    define u where "u = fold (\<lambda>i s. store8 (pmm_map s + of_nat i) 0xFF s) [0..<m] s"
    have same: "same_but_mem s u" and IH: "mem u p = (if p \<in> foot (vtr s) pm m then 0xFF else mem s p)"
      using Suc by (simp_all add: u_def)
    then have eq: "vtr u = vtr s" "pmm_map u = pm"
      using same_but_mem_machine [OF same] same_but_mem_pmm [OF same] assms(1) by simp_all
    have "same_but_mem s (store8 (pmm_map u + of_nat m) 0xFF u)"
      using same_but_mem_trans [OF same] by simp
    moreover have "mem (store8 (pmm_map u + of_nat m) 0xFF u) p =
        (if p \<in> foot (vtr s) pm (Suc m) then 0xFF else mem s p)"
      unfolding mem_store8 eq foot_Suc using IH by simp
    ultimately show ?case unfolding fold_upt_Suc u_def by blast
  qed simp
  then show "same_but_mem s t" "mem t p = (if p \<in> foot (vtr s) pm n then 0xFF else mem s p)"
    unfolding t_def by blast+
qed

lemma memmap_at_cong:
  assumes "vtr t = vtr s" "i < n" and "\<And>p. p \<in> foot (vtr s) stmap (24 + 24 * n) \<Longrightarrow> mem t p = mem s p"
  shows "memmap_at t stmap (of_nat i) = memmap_at s stmap (of_nat i)"
proof -
  have sub: "foot (vtr s) (stmap + 24 + 24 * of_nat i + of_nat d) k \<subseteq> foot (vtr s) stmap (24 + 24 * n)"
    if "d + k \<le> 24" for d k
    using foot_shift [of "24 + 24 * i + d" k "24 + 24 * n" "vtr s" stmap] that assms(2) by (simp add: add.assoc)
  have "ld64 (vtr s) (mem t) (stmap + 24 + 24 * of_nat i) = ld64 (vtr s) (mem s) (stmap + 24 + 24 * of_nat i)"
    "ld64 (vtr s) (mem t) (stmap + 24 + 24 * of_nat i + 8) = ld64 (vtr s) (mem s) (stmap + 24 + 24 * of_nat i + 8)"
    "ld32 (vtr s) (mem t) (stmap + 24 + 24 * of_nat i + 16) = ld32 (vtr s) (mem s) (stmap + 24 + 24 * of_nat i + 16)"
    using sub [of 0 8] sub [of 8 8] sub [of 16 4] assms(3)
    by (auto intro!: ld64_cong ld32_cong)
  then show ?thesis
    by (simp add: memmap_at_def assms(1) Let_def)
qed

text \<open>
  What a region of the memory map that is given back does to the bitmap: the bit position of its
  first frame is cleared in every byte the region's frames lie in.
\<close>

definition region_released :: "mmap_entry \<Rightarrow> u64 \<Rightarrow> u32 \<Rightarrow> bool" where
  "region_released e pm sz \<longleftrightarrow>
     me_type e = 1 \<and> (me_base e > pm + ucast sz \<or> me_base e + me_length e < pm)"

definition region_clears :: "mmap_entry \<Rightarrow> nat \<Rightarrow> bool" where
  "region_clears e k \<longleftrightarrow> k mod 8 = frame_of (me_base e) mod 8 \<and>
     (\<exists>j<frame_of (me_length e). (frame_of (me_base e) + j) div 8 = k div 8)"

lemma pmm_release_same: "same_but_mem s (pmm_release stmap b s)"
  unfolding pmm_release_def by (intro same_but_mem_fold) (simp add: Let_def pmm_unreg_same)

lemma pmm_release_spec:
  fixes s :: "'a pmm_scheme"
  assumes inj: "inj_at (vtr s) (pmm_map s) N" and N: "8 * N \<le> 4294967296"
    and apart: "foot (vtr s) stmap (24 + 24 * n) \<inter> foot (vtr s) (pmm_map s) N = {}"
    and fits: "\<And>i. i < n \<Longrightarrow> region_released (memmap_at s stmap (of_nat i)) (pmm_map s) b \<Longrightarrow>
      frame_of (me_base (memmap_at s stmap (of_nat i))) + frame_of (me_length (memmap_at s stmap (of_nat i))) \<le> 8 * N \<and>
      frame_of (me_length (memmap_at s stmap (of_nat i))) < 4294967296 \<and>
      frame_of (me_base (memmap_at s stmap (of_nat i))) < 4294967296"
    and n: "unat (memmap_entries s stmap) = n"
  shows "\<forall>p. p \<notin> foot (vtr s) (pmm_map s) N \<longrightarrow> mem (pmm_release stmap b s) p = mem s p"
    and "\<forall>k<8 * N. used (pmm_release stmap b s) k \<longleftrightarrow> used s k \<and>
    \<not> (\<exists>i<n. region_released (memmap_at s stmap (of_nat i)) (pmm_map s) b \<and>
            region_clears (memmap_at s stmap (of_nat i)) k)"
proof -
  let ?e = "\<lambda>i. memmap_at s stmap (of_nat i)" and ?p = "pmm_map s"
  let ?f = "\<lambda>i s. let e = memmap_at s stmap (of_nat i)
                 in if me_type e = 1 \<and>
                       (me_base e > pmm_map s + ucast b \<or> me_base e + me_length e < pmm_map s)
                    then pmm_unreg (ucast (TOBLOCKS (me_base e))) (ucast (TOBLOCKS (me_length e))) s
                    else s"
  define P where "P m t \<longleftrightarrow> m \<le> n \<longrightarrow> same_but_mem s t \<and>
    (\<forall>p. p \<notin> foot (vtr s) ?p N \<longrightarrow> mem t p = mem s p) \<and>
    (\<forall>k<8 * N. used t k \<longleftrightarrow> used s k \<and> \<not> (\<exists>i<m. region_released (?e i) ?p b \<and> region_clears (?e i) k))"
    for m and t :: "'a pmm_scheme"
  have "P n (fold ?f [0..<n] s)"
  proof (rule fold_invariant_upt)
    show "P 0 s" by (simp add: P_def)
    fix m and t :: "'a pmm_scheme"
    assume m: "m < n" and "P m t"
    then have same: "same_but_mem s t" and mem: "\<And>p. p \<notin> foot (vtr s) ?p N \<Longrightarrow> mem t p = mem s p"
      and u: "\<And>k. k < 8 * N \<Longrightarrow> used t k \<longleftrightarrow> used s k \<and>
        \<not> (\<exists>i<m. region_released (?e i) ?p b \<and> region_clears (?e i) k)"
      by (auto simp: P_def)
    have eq: "vtr t = vtr s" "pmm_map t = ?p"
      using same_but_mem_machine [OF same] same_but_mem_pmm [OF same] by simp_all
    have e: "memmap_at t stmap (of_nat m) = ?e m"
      using eq(1) m apart mem by (intro memmap_at_cong [where n = n]) auto
    show "P (Suc m) (?f m t)"
    proof (cases "region_released (?e m) ?p b")
      case True
      let ?b = "ucast (TOBLOCKS (me_base (?e m))) :: u32" and ?n = "ucast (TOBLOCKS (me_length (?e m))) :: u32"
      have step: "?f m t = pmm_unreg ?b ?n t"
        using True by (simp add: e eq region_released_def Let_def)
      have b: "unat ?b = frame_of (me_base (?e m))" "unat ?n = frame_of (me_length (?e m))"
        using fits [OF m True] by (simp_all add: unat_pfree_block)
      have injt: "inj_at (vtr t) (pmm_map t) N" and le: "unat ?b + unat ?n \<le> 8 * N"
        using inj eq b fits [OF m True] by simp_all
      have "same_but_mem s (pmm_unreg ?b ?n t)"
        using same_but_mem_trans [OF same pmm_unreg_same] .
      moreover have "mem (pmm_unreg ?b ?n t) p = mem s p" if "p \<notin> foot (vtr s) ?p N" for p
        using mem_pmm_unreg [OF injt N le, of p] mem [OF that] that by (simp add: eq)
      moreover have "used (pmm_unreg ?b ?n t) k \<longleftrightarrow> used t k \<and> \<not> region_clears (?e m) k" if "k < 8 * N" for k
        using used_pmm_unreg [OF injt N le that] b by (simp add: region_clears_def)
      ultimately show ?thesis
        unfolding P_def step using u True by (auto simp: less_Suc_eq)
    next
      case False
      then have "?f m t = t" by (auto simp: e eq region_released_def Let_def)
      then show ?thesis
        using same mem u False unfolding P_def by (auto simp: less_Suc_eq)
    qed
  qed
  then show "\<forall>p. p \<notin> foot (vtr s) ?p N \<longrightarrow> mem (pmm_release stmap b s) p = mem s p"
    and "\<forall>k<8 * N. used (pmm_release stmap b s) k \<longleftrightarrow> used s k \<and>
      \<not> (\<exists>i<n. region_released (?e i) ?p b \<and> region_clears (?e i) k)"
    using n by (simp_all add: P_def pmm_release_def)
qed

text \<open>
  A memory map \<open>pmm_init\<close> can work from: the bitmap it places is a block of distinct physical bytes,
  apart from those of the memory map, its frame count fits 32 bits, and the bitmap covers the regions
  that are given back.
\<close>

definition boot_map_ok :: "u64 \<Rightarrow> 'a pmm_scheme \<Rightarrow> bool" where
  "boot_map_ok stmap s \<longleftrightarrow>
     (let t = pmm_init stmap s; n = unat (memmap_entries s stmap); N = unat (pmm_map_size t)
      in inj_at (vtr s) (pmm_map t) N \<and> nframes t < 4294967296 \<and>
         foot (vtr s) stmap (24 + 24 * n) \<inter> foot (vtr s) (pmm_map t) N = {} \<and>
         (\<forall>i<n. let e = memmap_at s stmap (of_nat i)
                in region_released e (pmm_map t) (pmm_map_size t) \<longrightarrow>
                   frame_of (me_base e) + frame_of (me_length e) \<le> nframes t))"

lemma pmm_init_spec:
  assumes ok: "boot_map_ok stmap s" and t: "t = pmm_init stmap s" and n: "n = unat (memmap_entries s stmap)"
  shows "p \<notin> foot (vtr s) (pmm_map t) (unat (pmm_map_size t)) \<Longrightarrow> mem t p = mem s p"
    and "k < nframes t \<Longrightarrow> used t k \<longleftrightarrow>
    \<not> (\<exists>i<n. region_released (memmap_at s stmap (of_nat i)) (pmm_map t) (pmm_map_size t) \<and>
            region_clears (memmap_at s stmap (of_nat i)) k)"
proof -
  have inj: "inj_at (vtr s) (pmm_map t) (unat (pmm_map_size t))" and N: "nframes t < 4294967296"
    and apart: "foot (vtr s) stmap (24 + 24 * n) \<inter> foot (vtr s) (pmm_map t) (unat (pmm_map_size t)) = {}"
    and fits: "\<And>i. i < n \<Longrightarrow> region_released (memmap_at s stmap (of_nat i)) (pmm_map t) (pmm_map_size t) \<Longrightarrow>
      frame_of (me_base (memmap_at s stmap (of_nat i))) + frame_of (me_length (memmap_at s stmap (of_nat i))) \<le> nframes t"
    using ok unfolding boot_map_ok_def Let_def t [symmetric] n [symmetric] by blast+
  have bounds: "frame_of (me_base (memmap_at s stmap (of_nat i))) < 4294967296 \<and>
      frame_of (me_length (memmap_at s stmap (of_nat i))) < 4294967296"
    if "i < n" "region_released (memmap_at s stmap (of_nat i)) (pmm_map t) (pmm_map_size t)" for i
    using fits [OF that] N by simp
  define b :: u32 where "b = ucast (TOBLOCKS (pmm_highest s stmap) div 8)"
  define s2 where "s2 = s\<lparr>ramb := pmm_highest s stmap, pmm_map := pmm_place (s\<lparr>ramb := pmm_highest s stmap\<rparr>) stmap b\<rparr>"
  define s3 where "s3 = fold (\<lambda>i s. store8 (pmm_map s + of_nat i) 0xFF s) [0..<unat b] s2"
  define s4 where "s4 = pmm_release stmap b s3"
  have t': "t = s4\<lparr>pmm_map_size := b\<rparr>"
    by (simp add: t pmm_init_def b_def s2_def s3_def s4_def Let_def)
  note f = fill_bitmap [of "pmm_map s2" s2 "unat b", OF refl, folded s3_def]
  have s3: "vtr s3 = vtr s" "pmm_map s3 = pmm_map s2"
    using same_but_mem_machine [OF f(1)] same_but_mem_pmm [OF f(1)] by (simp_all add: s2_def)
  have s4: "vtr s4 = vtr s" "pmm_map s4 = pmm_map s2"
    using same_but_mem_machine [OF pmm_release_same [of s3 stmap b]]
      same_but_mem_pmm [OF pmm_release_same [of s3 stmap b]] s3 by (simp_all add: s4_def)
  have pm: "pmm_map t = pmm_map s2" "pmm_map_size t = b" "vtr s2 = vtr s" "mem s2 = mem s"
    using s4 by (simp_all add: t' s2_def)
  have nf: "nframes t = 8 * unat b" by (simp add: nframes_def pm)
  have keep: "mem s3 p = mem s p" if "p \<in> foot (vtr s) stmap (24 + 24 * n)" for p
    using f(2) [of p] apart that by (auto simp: pm)
  have e: "memmap_at s3 stmap (of_nat i) = memmap_at s stmap (of_nat i)" if "i < n" for i
    using that keep by (intro memmap_at_cong [where n = n]) (auto simp: s3)
  have "foot (vtr s) (stmap + of_nat 16) 8 \<subseteq> foot (vtr s) stmap (24 + 24 * n)"
    by (rule foot_shift) simp
  then have ent: "memmap_entries s3 stmap = memmap_entries s stmap"
    using keep s3 unfolding memmap_entries_def by (auto intro!: ld64_cong)
  have "used s3 k" if "k < nframes t"
  proof -
    have "vtr s (pmm_map s2 + of_nat (k div 8)) \<in> foot (vtr s) (pmm_map s2) (unat b)"
      using that nf by (intro in_foot) auto
    then show ?thesis
      using f(2) bit_0xFF [of "k mod 8"] by (simp add: used_iff_mem s3 pm)
  qed
  moreover have "(\<forall>p. p \<notin> foot (vtr s3) (pmm_map s3) (unat b) \<longrightarrow> mem s4 p = mem s3 p) \<and>
    (\<forall>k<8 * unat b. used s4 k \<longleftrightarrow> used s3 k \<and>
    \<not> (\<exists>i<n. region_released (memmap_at s3 stmap (of_nat i)) (pmm_map s3) b \<and>
            region_clears (memmap_at s3 stmap (of_nat i)) k))"
    unfolding s4_def
    by (intro conjI pmm_release_spec) (use inj apart N nf ent n fits bounds in \<open>auto simp: s3 pm e\<close>)
  moreover have "used t k = used s4 k" "mem t = mem s4" for k
    by (simp_all add: t' used_iff_mem)
  ultimately show "p \<notin> foot (vtr s) (pmm_map t) (unat (pmm_map_size t)) \<Longrightarrow> mem t p = mem s p"
    and "k < nframes t \<Longrightarrow> used t k \<longleftrightarrow>
    \<not> (\<exists>i<n. region_released (memmap_at s stmap (of_nat i)) (pmm_map t) (pmm_map_size t) \<and>
            region_clears (memmap_at s stmap (of_nat i)) k)"
    using f(2) nf by (auto simp: s3 pm e)
qed

text \<open>
  A machine at start-up (for the witnesses): the memory map at \<open>0x40000\<close> has one usable region, frames 1 to 7, and the
  higher half mirrors physical memory at \<open>0x100000\<close>.
\<close>

definition boot_sample :: pmm where
  "boot_sample = pmm_sample\<lparr>mem := (\<lambda>a. if a = 0x40010 then 1 else if a = 0x40019 then 0x10
       else if a = 0x40021 then 0x70 else if a = 0x40028 then 1 else 0),
     xlat := (\<lambda>_ a. a AND 0xFFFFF), hhdm := 0x100000, pmm_map_size := 0\<rparr>"

lemma boot_sample_entries: "memmap_entries boot_sample 0x40000 = 1"
  by (simp add: memmap_entries_def boot_sample_def ld64_def ld_bytes_def ld8_def upt_rec pmm_sample_def)

lemma boot_sample_at: "memmap_at boot_sample 0x40000 0 = \<lparr>me_base = 0x1000, me_length = 0x7000, me_type = 1\<rparr>"
  by (simp add: memmap_at_def boot_sample_def ld64_def ld32_def ld_bytes_def ld8_def upt_rec pmm_sample_def Let_def)

lemma boot_sample_at1: "memmap_at boot_sample 0x40000 1 = \<lparr>me_base = 0, me_length = 0, me_type = 0\<rparr>"
  by (simp add: memmap_at_def boot_sample_def ld64_def ld32_def ld_bytes_def ld8_def upt_rec pmm_sample_def Let_def)

lemma vtr_boot_sample: "vtr boot_sample = (\<lambda>a. a AND 0xFFFFF)"
  by (simp add: boot_sample_def)

definition one_region :: "'a pmm_scheme \<Rightarrow> bool" where
  "one_region s \<longleftrightarrow> memmap_entries s 0x40000 = 1 \<and>
     memmap_at s 0x40000 0 = \<lparr>me_base = 0x1000, me_length = 0x7000, me_type = 1\<rparr> \<and>
     memmap_at s 0x40000 1 = \<lparr>me_base = 0, me_length = 0, me_type = 0\<rparr> \<and>
     hhdm s = 0x100000 \<and> vtr s = (\<lambda>a. a AND 0xFFFFF)"

lemma one_region_sample: "one_region boot_sample"
  by (simp add: one_region_def boot_sample_entries boot_sample_at boot_sample_at1 vtr_boot_sample)
    (simp add: boot_sample_def)

lemma one_region_init:
  assumes "one_region s"
  shows "pmm_map (pmm_init 0x40000 s) = 0x101000" "pmm_map_size (pmm_init 0x40000 s) = 1"
    "nframes (pmm_init 0x40000 s) = 8"
proof -
  let ?s2 = "s\<lparr>ramb := 0x8000, pmm_map := 0x101000\<rparr>"
  let ?s3 = "store8 0x101000 0xFF ?s2"
  have high: "pmm_highest s 0x40000 = 0x8000"
    using assms by (simp add: pmm_highest_def one_region_def Let_def)
  have "memmap_at (s\<lparr>ramb := r\<rparr>) 0x40000 i = memmap_at s 0x40000 i"
    "memmap_entries (s\<lparr>ramb := r\<rparr>) 0x40000 = memmap_entries s 0x40000" for r i
    by (simp_all add: memmap_at_def memmap_entries_def)
  then have place: "pmm_place (s\<lparr>ramb := 0x8000\<rparr>) 0x40000 1 = 0x101000"
    using assms by (simp add: pmm_place_def one_region_def Let_def)
  have "TOBLOCKS 0x8000 div 8 = 1" by (simp add: TOBLOCKS_def ALIGN_def)
  then have "pmm_init 0x40000 s = (pmm_release 0x40000 1 ?s3)\<lparr>pmm_map_size := 1\<rparr>"
    by (simp add: pmm_init_def high place Let_def)
  moreover have "pmm_map (pmm_release 0x40000 1 ?s3) = 0x101000"
    using same_but_mem_pmm [OF pmm_release_same [of ?s3 "0x40000" 1]] by (simp add: store8_def)
  ultimately show "pmm_map (pmm_init 0x40000 s) = 0x101000"
    "pmm_map_size (pmm_init 0x40000 s) = 1" "nframes (pmm_init 0x40000 s) = 8"
    by (simp_all add: nframes_def)
qed

lemma one_region_ok:
  assumes "one_region s"
  shows "boot_map_ok 0x40000 s"
proof -
  have "foot (vtr s) 0x40000 48 \<inter> foot (vtr s) 0x101000 1 = {}"
    using assms by (simp add: one_region_def foot_def lessThan_nat_numeral lessThan_Suc)
  then show ?thesis
    using assms by (simp add: boot_map_ok_def one_region_init one_region_def Let_def frame_of_def inj_at_def lessThan_Suc)
qed

lemmas pmm_init_boot_sample = one_region_init [OF one_region_sample]
lemmas boot_map_ok_sample = one_region_ok [OF one_region_sample]

text \<open>
  C25. The bitmap \<open>pmm_init\<close> builds, exactly: below the managed limit, a frame is free afterwards
  when some region that is given back has it in a byte of the bitmap it spans and at the bit position
  of the region's first frame; every other frame is in use. So one frame in eight of a region is given
  back.
\<close>

theorem pmm_init_bitmap:
  assumes "boot_map_ok stmap s" "k < nframes (pmm_init stmap s)"
  shows "used (pmm_init stmap s) k \<longleftrightarrow>
    \<not> (\<exists>i<unat (memmap_entries s stmap).
         region_released (memmap_at s stmap (of_nat i)) (pmm_map (pmm_init stmap s)) (pmm_map_size (pmm_init stmap s)) \<and>
         region_clears (memmap_at s stmap (of_nat i)) k)"
  using assms(1) refl refl assms(2) by (rule pmm_init_spec(2))

theorem pmm_init_bitmap_witness:
  "\<not> used (pmm_init 0x40000 boot_sample) 1 \<and> used (pmm_init 0x40000 boot_sample) 2"
  using pmm_init_bitmap [OF boot_map_ok_sample, of 1] pmm_init_bitmap [OF boot_map_ok_sample, of 2]
  by (simp add: pmm_init_boot_sample boot_sample_entries boot_sample_at region_released_def region_clears_def
      frame_of_def exI [of _ 0])

text \<open>
  \<open>pmm_init\<close> does not reserve its own bitmap. It compares the physical end of a region with the
  virtual address of the bitmap, so when the region the bitmap was placed in ends below that virtual
  address (the higher half), the frame with the bitmap's first byte is free afterwards.
\<close>

lemma pmm_init_frees_bitmap_frame:
  assumes ok: "boot_map_ok stmap s" and i: "i < unat (memmap_entries s stmap)"
    and "e = memmap_at s stmap (of_nat i)" "me_type e = 1" "4096 \<le> me_length e"
    and "pmm_map (pmm_init stmap s) = me_base e + hhdm s" "vtr s (me_base e + hhdm s) = me_base e"
    and "me_base e + me_length e < me_base e + hhdm s"
  shows "\<not> used (pmm_init stmap s) (frame_of (vtr s (pmm_map (pmm_init stmap s))))"
proof -
  have rel: "region_released e (pmm_map (pmm_init stmap s)) (pmm_map_size (pmm_init stmap s))"
    using assms by (simp add: region_released_def)
  have "4096 \<le> unat (me_length e)"
    using assms(5) by (simp add: word_le_nat_alt)
  then have len: "0 < frame_of (me_length e)"
    by (simp add: frame_of_def div_greater_zero_iff)
  then have "region_clears e (frame_of (me_base e))"
    by (auto simp: region_clears_def intro!: exI [of _ 0])
  moreover have "frame_of (me_base e) < nframes (pmm_init stmap s)"
    using ok i rel len assms(3) by (fastforce simp: boot_map_ok_def Let_def)
  ultimately show ?thesis
    using pmm_init_spec(2) [OF ok refl refl, of "frame_of (me_base e)"] rel i assms(3,6,7) by auto
qed

lemma pmm_init_frees_bitmap_frame_witness:
  "\<not> used (pmm_init 0x40000 boot_sample) (frame_of (vtr boot_sample (pmm_map (pmm_init 0x40000 boot_sample))))"
  by (rule pmm_init_frees_bitmap_frame [OF boot_map_ok_sample, of 0, OF _ refl])
    (simp_all add: boot_sample_entries boot_sample_at pmm_init_boot_sample, simp_all add: boot_sample_def)

lemma pmm_init_same:
  obtains m p z where "pmm_init stmap s = s\<lparr>mem := m, ramb := pmm_highest s stmap, pmm_map := p, pmm_map_size := z\<rparr>"
proof -
  define b :: u32 where "b = ucast (TOBLOCKS (pmm_highest s stmap) div 8)"
  define s2 where "s2 = s\<lparr>ramb := pmm_highest s stmap, pmm_map := pmm_place (s\<lparr>ramb := pmm_highest s stmap\<rparr>) stmap b\<rparr>"
  have "same_but_mem s2 (pmm_release stmap b (fold (\<lambda>i s. store8 (pmm_map s + of_nat i) 0xFF s) [0..<unat b] s2))"
    using same_but_mem_trans [OF fill_bitmap(1) [OF refl] pmm_release_same] .
  then obtain m where "pmm_release stmap b (fold (\<lambda>i s. store8 (pmm_map s + of_nat i) 0xFF s) [0..<unat b] s2) = s2\<lparr>mem := m\<rparr>"
    unfolding same_but_mem_def by blast
  then have "pmm_init stmap s = s2\<lparr>mem := m, pmm_map_size := b\<rparr>"
    by (simp add: pmm_init_def b_def s2_def Let_def)
  then show thesis
    by (intro that [where m = m and z = b and p = "pmm_place (s\<lparr>ramb := pmm_highest s stmap\<rparr>) stmap b"])
      (simp add: s2_def)
qed

text \<open>
  When \<open>pmm_init\<close> leaves a well-formed manager: on a map it can work from, with some frame to manage and
  frames mapped at their physical addresses, exactly when no region that is given back clears frame 0 or a
  frame of the bitmap. When the bitmap's own region is given back, as in the higher half, it does.
\<close>

lemma pmm_init_ok_iff:
  assumes ok: "boot_map_ok stmap s" and t: "t = pmm_init stmap s" and n: "n = unat (memmap_entries s stmap)"
    and "0 < nframes t" and ident: "\<forall>a. frame_of a < nframes t \<longrightarrow> vtr s a = a"
  shows "pmm_ok t \<longleftrightarrow> (\<forall>i<n. region_released (memmap_at s stmap (of_nat i)) (pmm_map t) (pmm_map_size t) \<longrightarrow>
      \<not> region_clears (memmap_at s stmap (of_nat i)) 0 \<and>
      (\<forall>p\<in>bm_region t. frame_of p < nframes t \<longrightarrow> \<not> region_clears (memmap_at s stmap (of_nat i)) (frame_of p)))"
proof -
  have v: "vtr t = vtr s" unfolding t by (rule pmm_init_same [of stmap s]) simp
  have "inj_at (vtr s) (pmm_map t) (unat (pmm_map_size t))" "nframes t < 4294967296"
    using ok unfolding boot_map_ok_def Let_def t [symmetric] by blast+
  then have "pmm_ok t \<longleftrightarrow> used t 0 \<and> (\<forall>p\<in>bm_region t. frame_of p < nframes t \<longrightarrow> used t (frame_of p))"
    using assms(4) ident by (simp add: pmm_ok_def v)
  then show ?thesis
    using pmm_init_spec(2) [OF ok t n] assms(4) by blast
qed

text \<open>The first allocation when the lowest free frame holds the start of the bitmap.\<close>

lemma pmalloc_over_bitmap:
  assumes N: "nframes t < 4294967296" and fit: "first_fit t 1 f"
    and bm: "\<forall>k<4096. vtr t (pmm_map t + of_nat k) = of_nat (4096 * f) + of_nat k"
    and id: "\<forall>k<4096. vtr t (of_nat (4096 * f) + of_nat k) = of_nat (4096 * f) + of_nat k"
  defines "u \<equiv> snd (pmalloc 1 t)"
  shows "pmalloc 1 t = (of_nat (4096 * f), u)" "nframes u = nframes t"
    "k < 32768 \<Longrightarrow> \<not> used u k"
proof -
  have call: "pmalloc 1 t = (of_nat (4096 * f), memset_st (of_nat (4096 * f)) 0 4096 (pmm_ureg (of_nat f) 1 t))"
    using pmalloc_fit [OF N, of 1 f] fit by simp
  then show "pmalloc 1 t = (of_nat (4096 * f), u)" by (simp add: u_def)
  have same: "same_but_mem t u" unfolding u_def by (rule pmalloc_same)
  then show "nframes u = nframes t" using same_but_mem_pmm by blast
  show "\<not> used u k" if "k < 32768"
  proof -
    have k: "k div 8 < 4096" using that by simp
    have v: "vtr (pmm_ureg (of_nat f) 1 t) = vtr t"
      using same_but_mem_machine [OF pmm_ureg_same] by metis
    have "vtr t (of_nat (4096 * f) + of_nat (k div 8)) \<in> foot (vtr t) (of_nat (4096 * f)) 4096"
      using k by (rule in_foot)
    then have "mem u (of_nat (4096 * f) + of_nat (k div 8)) = 0"
      using id k by (simp add: u_def call mem_memset_st v del: of_nat_mult)
    then show ?thesis
      using bm k same_but_mem_machine [OF same] same_but_mem_pmm [OF same] by (simp add: used_iff_mem del: of_nat_mult)
  qed
qed

text \<open>
  C37. In the higher half the first allocation after \<open>pmm_init\<close> wipes out the bitmap. When the bitmap lies
  at the start of a page-aligned usable region below which nothing is free, \<open>pmalloc(1)\<close> returns the
  bitmap's own frame and clears it; afterwards every frame whose bit is in that frame counts as free, the
  returned one and frame 0 among them, so the next \<open>pmalloc(1)\<close> returns the null pointer.
\<close>

theorem pmalloc_erases_bitmap:
  assumes ok: "boot_map_ok stmap s" and i: "i < unat (memmap_entries s stmap)"
    and e: "e = memmap_at s stmap (of_nat i)" "me_type e = 1" "4096 \<le> me_length e" "me_base e = of_nat (4096 * f)" "f < 4294967296"
    and t: "t = pmm_init stmap s" "pmm_map t = me_base e + hhdm s"
    and map: "\<forall>k<4096. vtr s (me_base e + hhdm s + of_nat k) = me_base e + of_nat k"
      "\<forall>k<4096. vtr s (me_base e + of_nat k) = me_base e + of_nat k"
    and high: "me_base e + me_length e < me_base e + hhdm s"
    and low: "\<forall>k<f. used t k"
  shows "\<exists>u. pmalloc 1 t = (me_base e, u) \<and> (\<forall>k<nframes u. k < 32768 \<longrightarrow> \<not> used u k) \<and> fst (pmalloc 1 u) = 0"
proof -
  have v: "vtr t = vtr s"
    by (rule pmm_init_same [of stmap s]) (simp add: t(1))
  have bf: "frame_of (me_base e) = f" using e(4,5) frame_of_nat0 by simp
  have rel: "region_released e (pmm_map t) (pmm_map_size t)"
    using e t(2) high by (simp add: region_released_def)
  have "4096 \<le> unat (me_length e)" using e(3) by (simp add: word_le_nat_alt)
  then have len: "0 < frame_of (me_length e)" by (simp add: frame_of_def div_greater_zero_iff)
  have N: "nframes t < 4294967296" "f + frame_of (me_length e) \<le> nframes t"
    using ok i rel e(1) bf unfolding boot_map_ok_def Let_def t(1) [symmetric] by auto
  have bm: "vtr s (pmm_map t) = me_base e" using map(1) [rule_format, of 0] t(2) by simp
  have "\<not> used t f"
    using pmm_init_frees_bitmap_frame [OF ok i e(1-3)] t bm high bf by simp
  then have "first_fit t 1 f" using low N(2) len by (auto simp: first_fit_def free_run_def le_less_Suc_eq)
  note P = pmalloc_over_bitmap [OF N(1) this]
  define u where "u = snd (pmalloc 1 t)"
  have u: "pmalloc 1 t = (me_base e, u)" "nframes u = nframes t" "\<And>k. k < 32768 \<Longrightarrow> \<not> used u k"
    unfolding u_def using P map by (simp_all add: v t(2) e(4) del: of_nat_mult)
  have "first_fit u 1 0" using u(2,3) N(2) len by (auto simp: first_fit_def free_run_def)
  then have "fst (pmalloc 1 u) = 0" using pmalloc_fit [of u 1 0] N(1) u(2) by simp
  then show ?thesis using u by blast
qed

theorem pmalloc_erases_bitmap_witness:
  "\<exists>u. pmalloc 1 (pmm_init 0x40000 boot_sample) = (0x1000, u) \<and> (\<forall>k<nframes u. k < 32768 \<longrightarrow> \<not> used u k)"
proof -
  have a: "x AND 0xFFFFF = take_bit 20 x" for x :: u64
  proof -
    have m: "(0xFFFFF :: u64) = mask 20" by (simp add: mask_eq_exp_minus_1)
    show ?thesis unfolding m by (simp only: take_bit_eq_mask)
  qed
  have low: "vtr boot_sample (0x1000 + 0x100000 + of_nat k) = 0x1000 + of_nat k \<and> vtr boot_sample (0x1000 + of_nat k) = 0x1000 + of_nat k"
    if "k < 4096" for k
  proof -
    have u: "unat (0x1000 + 0x100000 + of_nat k :: u64) = 0x101000 + k" "unat (0x1000 + of_nat k :: u64) = 0x1000 + k"
      using that by (simp_all add: unat_word_ariths unat_of_nat64)
    have m: "(1052672 + k) mod 1048576 = 4096 + k"
      using mod_add_self1 [of 1048576 "4096 + k"] that by simp
    show ?thesis
      unfolding vtr_boot_sample a word_unat_eq_iff unsigned_take_bit_eq u using that m by (simp add: take_bit_eq_mod)
  qed
  have "\<forall>k<1. used (pmm_init 0x40000 boot_sample) k"
    using pmm_init_spec(2) [OF boot_map_ok_sample refl refl, of 0]
    by (simp add: pmm_init_boot_sample boot_sample_entries boot_sample_at region_clears_def frame_of_def)
  then show ?thesis
    using pmalloc_erases_bitmap [OF boot_map_ok_sample, of 0 _ 1, OF _ refl] low
    by (simp add: boot_sample_entries boot_sample_at pmm_init_boot_sample) (simp add: boot_sample_def; blast)
qed

section \<open>What the slab allocator does\<close>

lemma load64_store64: "inj_at (vtr s) a 8 \<Longrightarrow> load64 (store64 a v s) a = v"
  by (simp add: store64_def ld64_st64)

lemma load64_store64_other:
  "foot (vtr s) b 8 \<inter> foot (vtr s) a 8 = {} \<Longrightarrow> load64 (store64 a v s) b = load64 s b"
  by (simp add: store64_def ld64_st64_other)

lemma mem_store64_other: "p \<notin> foot (vtr s) a 8 \<Longrightarrow> mem (store64 a v s) p = mem s p"
  by (simp add: store64_def st64_other)

text \<open>A loop that stores one word per 64-byte slot.\<close>

definition store_slots :: "u64 \<Rightarrow> (nat \<Rightarrow> u64) \<Rightarrow> nat \<Rightarrow> 'a machine_scheme \<Rightarrow> 'a machine_scheme" where
  "store_slots h g n s = fold (\<lambda>i s. store64 (h + of_nat i * 64) (g i) s) [0..<n] s"

lemma store_slots_Suc: "store_slots h g (Suc n) s = store64 (h + of_nat n * 64) (g n) (store_slots h g n s)"
  by (simp add: store_slots_def)

lemma store_slots_same [simp]: "same_but_mem s (store_slots h g n s)"
  unfolding store_slots_def by (intro same_but_mem_fold) simp

lemma vtr_store_slots: "vtr (store_slots h g n s) = vtr s"
  using same_but_mem_machine [OF store_slots_same [of s h g n]] by simp

lemma slot_apart:
  assumes "inj_at tr h (64 * n)" "i < n" "j < n" "i \<noteq> j"
  shows "foot tr (h + of_nat i * 64) 8 \<inter> foot tr (h + of_nat j * 64) 8 = {}"
proof -
  have "64 * i + 8 \<le> 64 * n" "64 * j + 8 \<le> 64 * n" "64 * i + 8 \<le> 64 * j \<or> 64 * j + 8 \<le> 64 * i"
    using assms by auto
  from foot_apart [OF assms(1) this] show ?thesis
    by (simp add: mult.commute)
qed

lemma slot_inj: "inj_at tr h (64 * n) \<Longrightarrow> i < n \<Longrightarrow> inj_at tr (h + of_nat i * 64) 8"
  using inj_at_shift [of tr h "64 * n" "64 * i" 8] by (simp add: mult.commute)

lemma slot_foot: "i < n \<Longrightarrow> foot tr (h + of_nat i * 64) 8 \<subseteq> foot tr h (64 * n)"
  using foot_shift [of "64 * i" 8 "64 * n" tr h] by (simp add: mult.commute)

lemma load64_store_slots:
  assumes inj: "inj_at (vtr s) h (64 * n)" and j: "j < m" "m \<le> n"
  shows "load64 (store_slots h g m s) (h + of_nat j * 64) = g j"
  using j
proof (induction m)
  case (Suc m)
  show ?case
  proof (cases "j = m")
    case True
    then show ?thesis
      using slot_inj [OF inj, of m] Suc.prems by (simp add: store_slots_Suc load64_store64 vtr_store_slots)
  next
    case False
    then have "foot (vtr s) (h + of_nat j * 64) 8 \<inter> foot (vtr s) (h + of_nat m * 64) 8 = {}"
      using Suc.prems by (intro slot_apart [OF inj]) auto
    then show ?thesis
      using Suc False unfolding store_slots_Suc
      by (subst load64_store64_other) (auto simp: vtr_store_slots less_Suc_eq)
  qed
qed simp

lemma mem_store_slots_other:
  assumes "p \<notin> foot (vtr s) h (64 * n)"
  shows "m \<le> n \<Longrightarrow> mem (store_slots h g m s) p = mem s p"
proof (induction m)
  case (Suc m)
  then have "p \<notin> foot (vtr s) (h + of_nat m * 64) 8"
    using slot_foot [of m n "vtr s" h] assms by auto
  then show ?case
    using Suc unfolding store_slots_Suc by (subst mem_store64_other) (auto simp: vtr_store_slots)
qed (simp add: store_slots_def)

text \<open>The addresses on the free list, followed through the first words for at most \<open>n\<close> steps.\<close>

fun slab_chain :: "'a machine_scheme \<Rightarrow> nat \<Rightarrow> u64 \<Rightarrow> u64 list" where
  "slab_chain s 0 a = []"
| "slab_chain s (Suc n) a = (if a = 0 then [] else a # slab_chain s n (load64 s a))"

lemma slab_chain_slots:
  assumes link: "\<And>i. i < n \<Longrightarrow> load64 s (p i) = (if Suc i = n then 0 else p (Suc i))"
    and nz: "\<And>i. i < n \<Longrightarrow> p i \<noteq> 0"
  shows "j \<le> n \<Longrightarrow> 0 < j \<Longrightarrow> slab_chain s (Suc j) (p (n - j)) = map p [n - j..<n]"
proof (induction j)
  case (Suc j)
  let ?i = "n - Suc j"
  have i: "?i < n" and suc: "Suc ?i = n - j" using Suc.prems by auto
  have "slab_chain s (Suc (Suc j)) (p ?i) = p ?i # slab_chain s (Suc j) (load64 s (p ?i))"
    using nz [OF i] by simp
  also have "slab_chain s (Suc j) (load64 s (p ?i)) = map p [Suc ?i..<n]"
  proof (cases "j = 0")
    case True
    then show ?thesis using link [OF i] suc by simp
  next
    case False
    then have "n - j \<noteq> n" using Suc.prems by simp
    then have "load64 s (p ?i) = p (n - j)" using link [OF i] suc by simp
    then show ?thesis using Suc.IH Suc.prems False suc by simp
  qed
  finally show ?case by (simp only: upt_conv_Cons [OF i] list.map)
qed simp

text \<open>The slab made by the first call.\<close>

lemma frame_addr_nat:
  assumes "f < 4294967296" "i < 4096"
  shows "unat (of_nat (4096 * f + i) :: u64) = 4096 * f + i"
  using assms by (intro unat_of_nat64) simp

lemma spmalloc_new_slab:
  assumes ok: "pmm_ok s" and fit: "first_fit s 1 f" and h0: "slabH s = 0"
  defines "slab \<equiv> of_nat (4096 * f) :: u64"
  defines "t \<equiv> snd (spmalloc s)"
  shows "fst (spmalloc s) = slab + 8" and "slabH t = slab + 72"
    and "load64 t slab = 62"
    and "j < 62 \<Longrightarrow> load64 t (slab + 72 + of_nat j * 64) = (if Suc j = 62 then 0 else slab + 72 + of_nat (Suc j) * 64)"
proof -
  let ?h = "slab + 72"
  define s1 where "s1 = snd (pmalloc 1 s)"
  define s2 where "s2 = store64 slab 62 s1"
  define s3 where "s3 = store_slots ?h (\<lambda>i. ?h + (of_nat i + 1) * 64) 61 s2"
  have call: "pmalloc 1 s = (slab, s1)"
    using pmalloc_1_fit(1) [OF ok fit] by (simp add: s1_def slab_def prod_eq_iff)
  have sp: "spmalloc s = (slab + 8, (store64 (?h + 61 * 64) 0 s3)\<lparr>slabH := ?h\<rparr>)"
    by (simp add: spmalloc_def h0 call s2_def s3_def store_slots_def Let_def add.assoc)
  have t: "t = (store64 (?h + 61 * 64) 0 s3)\<lparr>slabH := ?h\<rparr>"
    by (simp add: t_def sp)
  show "fst (spmalloc s) = slab + 8" "slabH t = slab + 72"
    by (simp_all add: sp t)
  have f: "f < nframes s" "f < 4294967296"
    using pmalloc_1_fit(5) [OF ok fit] pmm_okD(1) [OF ok] by simp_all
  have vs1: "vtr s1 = vtr s"
    using same_but_mem_machine [OF pmalloc_same [of s 1]] by (simp add: s1_def)
  have vs: "vtr s2 = vtr s" "vtr s3 = vtr s"
    using vs1 by (simp_all add: s2_def s3_def vtr_store_slots store64_def)
  have id: "vtr s (slab + of_nat i) = slab + of_nat i" if "i < 4096" for i
    unfolding slab_def using frame_of_nat(2) [OF f(2) that] f(1) by (intro pmm_okD(4) [OF ok]) (simp del: of_nat_mult)
  have inj: "inj_at (vtr s) slab 4096"
    unfolding inj_at_def by (rule inj_onI) (auto simp: id of_nat_inj_on64)
  have hinj: "inj_at (vtr s) ?h (64 * 62)"
    using inj_at_shift [OF inj, of 72 "64 * 62"] by simp
  have apart: "foot (vtr s) slab 8 \<inter> foot (vtr s) ?h (64 * 62) = {}"
    using foot_apart [OF inj, of 0 8 72 "64 * 62"] by simp
  have last: "foot (vtr s) (?h + of_nat 61 * 64) 8 \<subseteq> foot (vtr s) ?h (64 * 62)"
    by (rule slot_foot) simp
  have "mem t p = mem s2 p" if "p \<in> foot (vtr s) slab 8" for p
  proof -
    have p: "p \<notin> foot (vtr s) ?h (64 * 62)" using apart that by blast
    then have "mem t p = mem s3 p"
      using last mem_store64_other [of p s3 "?h + of_nat 61 * 64" 0] by (auto simp: t vs store64_def)
    also have "\<dots> = mem s2 p"
      unfolding s3_def using p by (intro mem_store_slots_other [where n = 62]) (simp_all add: vs)
    finally show ?thesis .
  qed
  then have "load64 t slab = load64 s2 slab"
    by (simp add: t store64_def vs) (rule ld64_cong, simp add: t store64_def vs)
  then show "load64 t slab = 62"
    using inj_at_mono [OF _ inj, of 8] by (simp add: s2_def load64_store64 vs1)
  show "load64 t (?h + of_nat j * 64) = (if Suc j = 62 then 0 else ?h + of_nat (Suc j) * 64)" if j: "j < 62"
  proof (cases "j = 61")
    case True
    then show ?thesis
      using slot_inj [OF hinj, of 61] by (simp add: t load64_store64 vs)
  next
    case False
    then have "foot (vtr s) (?h + of_nat j * 64) 8 \<inter> foot (vtr s) (?h + of_nat 61 * 64) 8 = {}"
      using j by (intro slot_apart [OF hinj]) auto
    then have "load64 t (?h + of_nat j * 64) = load64 s3 (?h + of_nat j * 64)"
      using load64_store64_other [of s3 "?h + of_nat j * 64" "?h + of_nat 61 * 64" 0] by (simp add: t vs store64_def)
    also have "\<dots> = ?h + (of_nat j + 1) * 64"
      unfolding s3_def using j False hinj by (intro load64_store_slots [where n = 62]) (auto simp: vs)
    finally show ?thesis using False by (simp add: add.commute)
  qed
qed

text \<open>
  C26. The first object of a slab: with a free frame \<open>f\<close>, \<open>spmalloc\<close> with no slab returns the address
  eight bytes into the frame, the count word reads 62, and the free list is the 62 further 64-byte
  objects of the frame in address order, ending in the null pointer.
\<close>

theorem spmalloc_lays_out_slab:
  assumes "pmm_ok s" "first_fit s 1 f" "slabH s = 0"
  shows "fst (spmalloc s) = of_nat (4096 * f) + 8 \<and>
    load64 (snd (spmalloc s)) (of_nat (4096 * f)) = 62 \<and>
    slab_chain (snd (spmalloc s)) 63 (slabH (snd (spmalloc s))) =
      map (\<lambda>i. of_nat (4096 * f) + 72 + of_nat i * 64) [0..<62]"
proof -
  note n = spmalloc_new_slab [OF assms]
  let ?p = "\<lambda>i. of_nat (4096 * f) + 72 + of_nat i * 64 :: u64"
  have f: "f < 4294967296"
    using pmalloc_1_fit(5) [OF assms(1,2)] pmm_okD(1) [OF assms(1)] by simp
  have "?p i \<noteq> 0" if "i < 62" for i
  proof -
    have "?p i = of_nat (4096 * f + (72 + i * 64))" by simp
    then have "unat (?p i) = 4096 * f + (72 + i * 64)"
      using frame_addr_nat [OF f, of "72 + i * 64"] that by (simp only:)
    then show ?thesis by (metis add_is_0 unat_0 zero_neq_numeral)
  qed
  then have "slab_chain (snd (spmalloc s)) (Suc 62) (?p (62 - 62)) = map ?p [62 - 62..<62]"
    using n(4) by (intro slab_chain_slots) simp_all
  then show ?thesis
    using n(1-3) by simp
qed

theorem spmalloc_lays_out_slab_witness:
  "fst (spmalloc pmm_sample) = 0x1008 \<and>
   slab_chain (snd (spmalloc pmm_sample)) 63 (slabH (snd (spmalloc pmm_sample))) ! 61 = 0x1F88"
  using spmalloc_lays_out_slab [OF pmm_ok_sample first_fit_sample [of 1]] by simp

text \<open>
  C27. The slab is a stack: an object given back is the next one handed out, and the free list and
  the count are then what they were; only the object's first eight bytes may differ. This needs the
  count not to reach 63, where \<open>spfree\<close> gives the whole frame back.
\<close>

theorem spmalloc_after_spfree:
  assumes a: "a \<noteq> 0" and count: "load64 s (ALIGN a) + 1 \<noteq> 63"
    and inj: "inj_at (vtr s) a 8" "inj_at (vtr s) (ALIGN a) 8"
    and apart: "foot (vtr s) a 8 \<inter> foot (vtr s) (ALIGN a) 8 = {}"
  shows "fst (spmalloc (spfree a s)) = a \<and> slabH (snd (spmalloc (spfree a s))) = slabH s \<and>
    load64 (snd (spmalloc (spfree a s))) (ALIGN a) = load64 s (ALIGN a) \<and>
    (\<forall>p. p \<notin> foot (vtr s) a 8 \<longrightarrow> p \<notin> foot (vtr s) (ALIGN a) 8 \<longrightarrow>
       mem (snd (spmalloc (spfree a s))) p = mem s p)"
proof -
  let ?h = "ALIGN a"
  let ?s1 = "store64 ?h (load64 s ?h + 1) s"
  let ?s2 = "(store64 a (slabH s) ?s1)\<lparr>slabH := a\<rparr>"
  let ?u = "store64 ?h (load64 ?s2 ?h - 1) ?s2"
  have vs: "vtr ?s1 = vtr s" "vtr (store64 a (slabH s) ?s1) = vtr s" "slabH ?s1 = slabH s"
    by (simp_all add: store64_def)
  have l1: "load64 ?s1 ?h = load64 s ?h + 1"
    using inj(2) by (rule load64_store64)
  have free: "spfree a s = ?s2"
    using count l1 [unfolded vs] by (simp add: spfree_def vs Let_def)
  have l2: "load64 (store64 a (slabH s) ?s1) ?h = load64 s ?h + 1"
    using apart l1 by (subst load64_store64_other) (auto simp: vs Int_commute)
  have la: "load64 (store64 a (slabH s) ?s1) a = slabH s"
    using inj(1) by (intro load64_store64) (simp add: vs)
  have "load64 ?u a = load64 ?s2 a"
    using apart by (intro load64_store64_other) (simp add: vs)
  then have "spmalloc ?s2 = (a, ?u\<lparr>slabH := slabH s\<rparr>)"
    using a la vs by (simp add: spmalloc_def Let_def) (simp add: store64_def)
  moreover have "load64 ?u ?h = load64 s ?h"
    using inj(2) l2 by (subst load64_store64) (simp_all add: vs)
  moreover have "mem ?u p = mem s p" if "p \<notin> foot (vtr s) a 8" "p \<notin> foot (vtr s) ?h 8" for p
    using that by (simp add: store64_def st64_other)
  ultimately show ?thesis
    by (simp add: free)
qed

theorem spmalloc_after_spfree_witness:
  "fst (spmalloc (spfree 0x1048 pmm_sample)) = 0x1048"
proof -
  have "foot (\<lambda>a. a) 0x1048 8 \<inter> foot (\<lambda>a. a) 0x1000 8 = {}"
    by (auto simp: foot_id)
  moreover have "ALIGN 0x1048 = 0x1000" by (simp add: ALIGN_def)
  moreover have "load64 pmm_sample 0x1000 = 0"
    by (simp add: ld64_def ld_bytes_def ld8_def upt_rec) (simp add: pmm_sample_def)
  ultimately show ?thesis
    using spmalloc_after_spfree [of "0x1048" pmm_sample] by (simp add: inj_at_id)
qed

text \<open>
  The count goes astray: \<open>ALIGN\<close> rounds down to 1 KiB, not to the frame, so taking an object
  that starts 1 KiB or more into its slab leaves the slab's count word alone and decrements instead
  the last eight bytes of another object of the slab (object 15, 31 or 47).
\<close>

lemma spmalloc_miscounts:
  assumes "slabH s = of_nat (4096 * f + (8 + 64 * i))" "16 \<le> i" "i < 63" "f < 4294967296" "f \<noteq> 0"
    and inj: "inj_at (vtr s) (of_nat (4096 * f)) 4096"
  defines "q \<equiv> (8 + 64 * i) div 1024"
  shows "load64 (snd (spmalloc s)) (of_nat (4096 * f)) = load64 s (of_nat (4096 * f)) \<and>
    load64 (snd (spmalloc s)) (of_nat (4096 * f + (8 + 64 * (16 * q - 1) + 56))) =
      load64 s (of_nat (4096 * f + (8 + 64 * (16 * q - 1) + 56))) - 1"
proof -
  let ?b = "of_nat (4096 * f) :: u64"
  have q: "1 \<le> q" "q \<le> 3" using assms(2,3) by (auto simp: q_def less_eq_div_iff_mult_less_eq div_less_iff_less_mult simp flip: less_Suc_eq_le)
  have "unat (ALIGN (slabH s)) = 1024 * ((4096 * f + (8 + 64 * i)) div 1024)"
    using assms(3,4) unfolding unat_ALIGN assms(1) by (subst frame_addr_nat) simp_all
  also have "\<dots> = 4096 * f + 1024 * q"
  proof -
    have "(4096 * f + (8 + 64 * i)) div 1024 = ((8 + 64 * i) + (4 * f) * 1024) div 1024"
      by (simp add: ac_simps)
    also have "\<dots> = 4 * f + q"
      unfolding q_def by (rule div_mult_self1) simp
    finally show ?thesis by simp
  qed
  finally have al: "ALIGN (slabH s) = ?b + of_nat (1024 * q)"
    by (metis of_nat_add of_nat_unat ucast_id)
  have nz: "slabH s \<noteq> 0"
  proof -
    have "unat (slabH s) = 4096 * f + (8 + 64 * i)"
      using assms(3,4) unfolding assms(1) by (intro frame_addr_nat) simp_all
    then show ?thesis by (metis add_is_0 unat_0 zero_neq_numeral)
  qed
  have eq: "8 + 64 * (16 * q - 1) + 56 = 1024 * q" using q(1) by simp
  let ?a = "?b + of_nat (1024 * q)"
  have t: "mem (snd (spmalloc s)) = mem (store64 ?a (load64 s ?a - 1) s)" "vtr (snd (spmalloc s)) = vtr s"
    using nz al by (simp_all add: spmalloc_def Let_def store64_def)
  have "foot (vtr s) (?b + of_nat 0) 8 \<inter> foot (vtr s) ?a 8 = {}"
    using q by (intro foot_apart [OF inj]) auto
  then have "load64 (store64 ?a (load64 s ?a - 1) s) ?b = load64 s ?b"
    by (intro load64_store64_other) simp
  moreover have "load64 (store64 ?a (load64 s ?a - 1) s) ?a = load64 s ?a - 1"
    using q inj_at_shift [OF inj, of "1024 * q" 8] by (intro load64_store64) simp
  ultimately show ?thesis
    unfolding eq of_nat_add by (simp add: t store64_def del: of_nat_mult)
qed

lemma spmalloc_miscounts_witness:
  "let s = pmm_sample\<lparr>slabH := of_nat (4096 * 1 + (8 + 64 * 20))\<rparr>
   in load64 (snd (spmalloc s)) (of_nat (4096 * 1)) = load64 s (of_nat (4096 * 1))"
proof -
  have "inj_at (vtr (pmm_sample\<lparr>slabH := of_nat (4096 * 1 + (8 + 64 * 20))\<rparr>)) (of_nat (4096 * 1)) 4096"
    by (simp add: inj_at_id)
  then show ?thesis
    using spmalloc_miscounts [of "pmm_sample\<lparr>slabH := of_nat (4096 * 1 + (8 + 64 * 20))\<rparr>" 1 20]
    by (simp add: Let_def)
qed

section \<open>The page dump\<close>

definition binToAscii :: "u8 list" where
  "binToAscii = lit ''0123456789ABCDEF''"

text \<open>\<open>*buffer = c; buffer++;\<close>\<close>

definition put_char :: "u8 \<Rightarrow> u64 \<times> 'a machine_scheme \<Rightarrow> u64 \<times> 'a machine_scheme" where
  "put_char c = (\<lambda>(b, s). (b + 1, store8 b c s))"

definition pagecontent_row :: "u64 \<Rightarrow> nat \<Rightarrow> u64 \<times> 'a machine_scheme \<Rightarrow> u64 \<times> 'a machine_scheme" where
  "pagecontent_row addr i bs =
     (let bs = (if i mod 8 = 0 \<and> i mod 16 \<noteq> 0 then put_char 0x20 (put_char 0x7C bs) else bs);
          bs = (if i mod 16 = 0
                then put_char 0x20 (put_char 0x30
                  (fold (\<lambda>j. put_char (binToAscii ! unat (drop_bit (j * 4) (addr + of_nat i) AND 0xF)))
                     (rev [1..<16]) (put_char 0x0A bs)))
                else bs);
          bs = put_char (binToAscii ! unat (drop_bit 4 (load8 (snd bs) (addr + of_nat i)))) bs;
          bs = put_char (binToAscii ! unat (load8 (snd bs) (addr + of_nat i) AND 0xF)) bs
      in put_char 0x20 bs)"

definition pagecontent :: "u64 \<Rightarrow> u64 \<Rightarrow> 'a machine_scheme \<Rightarrow> u64 \<times> 'a machine_scheme" where
  "pagecontent addr buffer s =
     (let (b, t) = fold (pagecontent_row addr) [0..<4096] (buffer, s)
      in (buffer, store8 b 0 t))"

text \<open>
  \<open>showpage\<close> prints the dump, whose text is the bytes at \<open>buffer\<close> up to the first zero. The bitmap is
  indexed with the address itself, and four frames of the hundred are given back.
\<close>

definition showpage :: "u64 \<Rightarrow> 'a pmm_scheme \<Rightarrow> 'a pmm_scheme" where
  "showpage addr s =
     (let (buffer, s1) = pmalloc 100 s;
          s2 = (if ALIGN addr = addr
                then prints 30 1 (lit (if PMM_REGU s1 addr then ''MEMDEBUG:BLOCK USED'' else ''MEMDEBUG:BLOCK FREE''))
                       (if PMM_REGU s1 addr then 0xFF0000 else 0x00FF00) 0 s1
                else prints 30 1 (lit ''MEMDEBUG:ADDR UNALIGNED'') 0x40DCFF 0 s1);
          s3 = snd (pagecontent addr buffer s2);
          s4 = prints 0 1 (c_text s3 buffer 17409) 0x40DCFF 0 s3
      in pfree buffer 4 s4)"

text \<open>
  Writing \<open>m\<close> bytes from \<open>base\<close> on: where the pointer is and what memory is left alone.
\<close>

definition dumped :: "'a machine_scheme \<Rightarrow> u64 \<Rightarrow> nat \<Rightarrow> u64 \<times> 'a machine_scheme \<Rightarrow> bool" where
  "dumped s base m bs \<longleftrightarrow> fst bs = base + of_nat m \<and> same_but_mem s (snd bs) \<and>
     (\<forall>p. p \<notin> foot (vtr s) base m \<longrightarrow> mem (snd bs) p = mem s p)"

lemma dumped_put_char: "dumped s base m bs \<Longrightarrow> dumped s base (Suc m) (put_char c bs)"
proof (cases bs)
  case (Pair b t)
  assume d: "dumped s base m bs"
  then have b: "b = base + of_nat m" and same: "same_but_mem s t"
    and keep: "\<And>p. p \<notin> foot (vtr s) base m \<Longrightarrow> mem t p = mem s p"
    by (auto simp: dumped_def Pair)
  have "vtr t = vtr s" using same_but_mem_machine [OF same] by simp
  then show "dumped s base (Suc m) (put_char c bs)"
    using same_but_mem_trans [OF same] keep
    by (simp add: dumped_def Pair put_char_def b mem_store8 foot_Suc)
qed

lemma dumped_fold_put: "dumped s base m bs \<Longrightarrow> dumped s base (m + length xs) (fold (\<lambda>x. put_char (f x)) xs bs)"
proof (induction xs arbitrary: m bs)
  case (Cons x xs)
  show ?case
    using Cons.IH [OF dumped_put_char [OF Cons.prems]] by simp
qed simp

definition row_len :: "nat \<Rightarrow> nat" where
  "row_len i = 3 + (if i mod 8 = 0 \<and> i mod 16 \<noteq> 0 then 2 else 0) + (if i mod 16 = 0 then 18 else 0)"

lemma dumped_row: "dumped s base m bs \<Longrightarrow> dumped s base (m + row_len i) (pagecontent_row addr i bs)"
proof -
  assume d: "dumped s base m bs"
  define bs1 where "bs1 = (if i mod 8 = 0 \<and> i mod 16 \<noteq> 0 then put_char 0x20 (put_char 0x7C bs) else bs)"
  define m1 where "m1 = m + (if i mod 8 = 0 \<and> i mod 16 \<noteq> 0 then 2 else 0)"
  have d1: "dumped s base m1 bs1"
    using d by (auto simp: bs1_def m1_def intro: dumped_put_char)
  define bs2 where "bs2 = (if i mod 16 = 0 then put_char 0x20 (put_char 0x30
      (fold (\<lambda>j. put_char (binToAscii ! unat (drop_bit (j * 4) (addr + of_nat i) AND 0xF))) (rev [1..<16])
        (put_char 0x0A bs1))) else bs1)"
  define m2 where "m2 = m1 + (if i mod 16 = 0 then 18 else 0)"
  have d2: "dumped s base m2 bs2"
  proof (cases "i mod 16 = 0")
    case True
    have "dumped s base (Suc (Suc (Suc m1 + length (rev [1..<16])))) bs2"
      unfolding bs2_def if_P [OF True] by (intro dumped_put_char dumped_fold_put d1)
    then show ?thesis using True by (simp add: m2_def add.commute)
  qed (simp add: bs2_def m2_def d1)
  have "pagecontent_row addr i bs = (let bs = put_char (binToAscii ! unat (drop_bit 4 (load8 (snd bs2) (addr + of_nat i)))) bs2;
          bs = put_char (binToAscii ! unat (load8 (snd bs) (addr + of_nat i) AND 0xF)) bs
      in put_char 0x20 bs)"
    unfolding pagecontent_row_def bs1_def bs2_def Let_def ..
  moreover have "m + row_len i = Suc (Suc (Suc m2))"
    by (simp add: row_len_def m1_def m2_def)
  ultimately show ?thesis
    using d2 by (simp add: Let_def dumped_put_char)
qed

lemma sum_row_len: "(\<Sum>i<n. row_len i) = 3 * n + 2 * ((n + 7) div 16) + 18 * ((n + 15) div 16)"
proof (induction n)
  case (Suc n)
  have m: "n mod 8 = 0 \<and> n mod 16 \<noteq> 0 \<longleftrightarrow> n mod 16 = 8" "Suc (n + 7) mod 16 = 0 \<longleftrightarrow> n mod 16 = 8"
    "Suc (n + 15) mod 16 = 0 \<longleftrightarrow> n mod 16 = 0"
    by presburger+
  have "Suc (n + 7) div 16 = (n + 7) div 16 + (if n mod 16 = 8 then 1 else 0)"
    "Suc (n + 15) div 16 = (n + 15) div 16 + (if n mod 16 = 0 then 1 else 0)"
    unfolding div_Suc m by simp_all
  then show ?case
    unfolding sum.lessThan_Suc Suc.IH row_len_def [of n] m add_Suc by simp
qed simp

lemma dumped_rows: "dumped s buffer (\<Sum>i<n. row_len i) (fold (pagecontent_row addr) [0..<n] (buffer, s))"
proof (induction n)
  case 0
  then show ?case by (simp add: dumped_def)
next
  case (Suc n)
  then show ?case
    unfolding fold_upt_Suc using dumped_row [of s buffer "\<Sum>i<n. row_len i" _ n addr] by simp
qed

text \<open>
  \<open>pagecontent\<close> writes 17408 characters and a terminating zero from the buffer on and no other
  byte, so a buffer of five frames is enough, and it returns the buffer.
\<close>

lemma pagecontent_bounds:
  assumes "r = pagecontent addr buffer s"
  shows "fst r = buffer \<and> load8 (snd r) (buffer + 17408) = 0 \<and>
    (\<forall>p. p \<notin> foot (vtr s) buffer 17409 \<longrightarrow> mem (snd r) p = mem s p)"
proof -
  obtain b t where bt: "fold (pagecontent_row addr) [0..<4096] (buffer, s) = (b, t)"
    by fastforce
  have d: "dumped s buffer 17408 (b, t)"
    using dumped_rows [of s buffer 4096 addr] unfolding sum_row_len bt by simp
  then have "vtr t = vtr s"
    using same_but_mem_machine [of s t] by (simp add: dumped_def)
  moreover have "r = (buffer, store8 b 0 t)"
    by (simp add: assms pagecontent_def bt)
  moreover have "foot (vtr s) buffer 17409 = insert (vtr s b) (foot (vtr s) buffer 17408)"
    using d foot_Suc [of "vtr s" buffer 17408] by (simp add: dumped_def)
  ultimately show ?thesis
    using d by (auto simp: dumped_def store8_def st8_def ld8_def)
qed

lemma pagecontent_bounds_witness:
  "fst (pagecontent 0 0x300000 pmm_sample) = 0x300000 \<and>
   load8 (snd (pagecontent 0 0x300000 pmm_sample)) (0x300000 + 17408) = 0"
  using pagecontent_bounds [OF refl] by blast

end
