(* ===== verification/Vmm.thy ===== *)
theory Vmm
  imports Pmm "HOL-Library.Sublist"
begin

text \<open>
  \<open>mem/vmm_mem.c\<close>: the virtual memory manager. It writes four-level x86-64 page tables through the
  higher-half window at \<open>hhdm\<close>. The record adds the component's two globals. \<open>read_cr3\<close> and
  \<open>read_cr2\<close> are in \<open>Machine\<close>. The theorems are about the tables as they lie in physical memory:
  what the processor's walk of them finds before and after \<open>map_block\<close>.
\<close>

record vmm = pmm +
  start_pml4 :: u64
  base_pml4 :: u64

definition write_cr3 :: "u64 \<Rightarrow> 'a sys_scheme \<Rightarrow> (unit, 'a sys_scheme) outcome" where
  "write_cr3 v s =
     (if v = ALIGN v then Ret () (s\<lparr>cr3 := v\<rparr>) else except (lit ''Set cr3 to unaligned value'') s)"

text \<open>\<open>newpml4\<close>: an empty lower half and a copy of the boot tables' upper half.\<close>

definition newpml4 :: "'a vmm_scheme \<Rightarrow> u64 \<times> 'a vmm_scheme" where
  "newpml4 s =
     (let (pml4, s1) = pmalloc 1 s;
          s2 = memset_st (pml4 + hhdm s1) 0 2048 s1;
          s3 = memcpy_st (pml4 + 2048 + hhdm s2) (start_pml4 s2 + hhdm s2) 2048 s2
      in (pml4, s3))"

definition PAG_4K_FLAGS :: u64 where "PAG_4K_FLAGS = 0x3FF"
definition PAG_PRESENT :: u64 where "PAG_PRESENT = 1"
definition PAG_WRITABLE :: u64 where "PAG_WRITABLE = 2"
definition PAG_USER :: u64 where "PAG_USER = 4"

definition PHYS_TO_VIRT :: "'a pmm_scheme \<Rightarrow> u64 \<Rightarrow> u64" where
  "PHYS_TO_VIRT s addr = addr + hhdm s"

definition getidx :: "u64 \<Rightarrow> nat \<Rightarrow> u64" where
  "getidx virt level = drop_bit (12 + (level - 1) * 9) virt AND 0x1ff"

definition get_alloc_next :: "u64 \<Rightarrow> u64 \<Rightarrow> 'a pmm_scheme \<Rightarrow> u64 \<times> 'a pmm_scheme" where
  "get_alloc_next cur idx s =
     (let a = cur + 8 * idx;
          s1 = (if load64 s a AND PAG_PRESENT = 0
                then let (f, s') = pmalloc 1 s
                     in store64 a (f OR PAG_PRESENT OR PAG_WRITABLE OR PAG_USER) s'
                else s)
      in (PHYS_TO_VIRT s1 (load64 s1 a AND NOT PAG_4K_FLAGS), s1))"

definition map_block :: "u64 \<Rightarrow> u64 \<Rightarrow> u64 \<Rightarrow> u64 \<Rightarrow> 'a pmm_scheme \<Rightarrow> 'a pmm_scheme" where
  "map_block pt virt0 phys0 flags s =
     (let virt = virt0 AND NOT PAG_4K_FLAGS;
          phys = phys0 AND NOT PAG_4K_FLAGS;
          (p3, s3) = get_alloc_next (PHYS_TO_VIRT s pt) (getidx virt 4) s;
          (p2, s2) = get_alloc_next p3 (getidx virt 3) s3;
          (p1, s1) = get_alloc_next p2 (getidx virt 2) s2
      in store64 (p1 + 8 * getidx virt 1) (phys OR flags OR PAG_PRESENT) s1)"

text \<open>\<open>base_pml4 + 256\<close> counts 64-bit entries.\<close>

definition vmm_init :: "'a vmm_scheme \<Rightarrow> 'a vmm_scheme" where
  "vmm_init s = s\<lparr>base_pml4 := read_cr3 s, start_pml4 := read_cr3 s + 8 * 256\<rparr>"

lemma same_but_mem_vmm:
  "same_but_mem s t \<Longrightarrow> start_pml4 t = start_pml4 s \<and> base_pml4 t = base_pml4 s"
  by (auto simp: same_but_mem_def)

lemma same_but_io_vmm:
  "same_but_io s t \<Longrightarrow> start_pml4 t = start_pml4 s \<and> base_pml4 t = base_pml4 s"
  by (auto simp: same_but_io_def)

section \<open>Page tables in physical memory\<close>

definition pte :: "memory \<Rightarrow> u64 \<Rightarrow> nat \<Rightarrow> u64" where
  "pte m t i = ld64 (\<lambda>a. a) m (t + of_nat (8 * i))"

text \<open>The table a path of indices leads to, with the address mask of the code.\<close>

fun table_at :: "memory \<Rightarrow> u64 \<Rightarrow> nat list \<Rightarrow> u64 option" where
  "table_at m t [] = Some t"
| "table_at m t (i # is) =
     (if bit (pte m t i) 0 then table_at m (pte m t i AND NOT PAG_4K_FLAGS) is else None)"

lemma table_at_snoc:
  "table_at m t (is @ [j]) = (case table_at m t is of None \<Rightarrow> None
     | Some a \<Rightarrow> if bit (pte m a j) 0 then Some (pte m a j AND NOT PAG_4K_FLAGS) else None)"
  by (induction "is" arbitrary: t) auto

text \<open>
  The processor's walk (Intel SDM 4.5): the address field of an entry is its bits 12 to 51. An entry of
  the two middle levels with bit 7 set maps a large page itself; the walk then yields the entry a
  4096-byte page of it would have. In the top level bit 7 is reserved, and the access faults.
\<close>

definition large_entry :: "u64 \<Rightarrow> nat list \<Rightarrow> u64" where
  "large_entry e is = (e AND NOT 0x1080) OR push_bit 12 (of_nat (foldl (\<lambda>n i. 512 * n + i) 0 is))"

fun cpu_walk :: "memory \<Rightarrow> u64 \<Rightarrow> nat list \<Rightarrow> u64 option" where
  "cpu_walk m t [] = None"
| "cpu_walk m t [i] = (if bit (pte m t i) 0 then Some (pte m t i) else None)"
| "cpu_walk m t (i # j # is) =
     (if \<not> bit (pte m t i) 0 then None
      else if bit (pte m t i) 7 then (if length is < 2 then Some (large_entry (pte m t i) (j # is)) else None)
      else cpu_walk m (pte m t i AND 0x000FFFFFFFFFF000) (j # is))"

definition vidx :: "u64 \<Rightarrow> nat list" where
  "vidx virt = map (\<lambda>level. unat (getidx virt level)) [4, 3, 2, 1]"

definition translate :: "memory \<Rightarrow> u64 \<Rightarrow> u64 \<Rightarrow> u64 option" where
  "translate m pt virt = cpu_walk m pt (vidx virt)"

text \<open>A table is a frame of the pool, in use and free of the pool's own bitmap.\<close>

definition table_ok :: "'a pmm_scheme \<Rightarrow> u64 \<Rightarrow> bool" where
  "table_ok s a \<longleftrightarrow> a = of_nat (4096 * frame_of a) \<and> frame_of a < nframes s \<and> used s (frame_of a) \<and>
     frame_of a \<notin> frame_of ` bm_region s"

text \<open>
  Well-formed paging: the frames of the pool are mapped in the higher-half window, and the tables
  under \<open>pt\<close> form a tree of such frames (no table is reached by two paths), with no large page in it:
  \<open>get_alloc_next\<close> takes every present entry for a table.
\<close>

definition paths :: "nat list set" where
  "paths = {p. length p \<le> 3 \<and> (\<forall>i\<in>set p. i < 512)}"

definition small_pages :: "memory \<Rightarrow> u64 \<Rightarrow> bool" where
  "small_pages m pt \<longleftrightarrow> (\<forall>p i a. p @ [i] \<in> paths \<longrightarrow> table_at m pt p = Some a \<longrightarrow> bit (pte m a i) 0 \<longrightarrow>
     \<not> bit (pte m a i) 7)"

definition paging_ok :: "'a pmm_scheme \<Rightarrow> u64 \<Rightarrow> bool" where
  "paging_ok s pt \<longleftrightarrow> pmm_ok s \<and> (\<forall>a. frame_of a < nframes s \<longrightarrow> vtr s (a + hhdm s) = a) \<and>
     (\<forall>p\<in>paths. \<forall>a. table_at (mem s) pt p = Some a \<longrightarrow> table_ok s a) \<and>
     (\<forall>p\<in>paths. \<forall>q\<in>paths. \<forall>a. table_at (mem s) pt p = Some a \<longrightarrow> table_at (mem s) pt q = Some a \<longrightarrow> p = q) \<and>
     small_pages (mem s) pt"

lemma small_pages_cong:
  assumes "\<And>p i a. p @ [i] \<in> paths \<Longrightarrow> table_at m' pt' p = Some a \<Longrightarrow>
    (\<exists>p'. p' @ [i] \<in> paths \<and> (\<exists>a'. table_at m pt p' = Some a' \<and> pte m' a i = pte m a' i)) \<or> \<not> bit (pte m' a i) 0 \<or> \<not> bit (pte m' a i) 7"
    and "small_pages m pt"
  shows "small_pages m' pt'"
  using assms unfolding small_pages_def by metis

subsection \<open>Access through the window\<close>

lemma ld_bytes_via:
  assumes "\<And>k. k < n \<Longrightarrow> tr (a + of_nat k) = b + of_nat k"
  shows "ld_bytes tr m a n = ld_bytes (\<lambda>a. a) m b n"
  using assms by (simp add: ld_bytes_def ld8_def)

lemma st_bytes_via:
  assumes "\<And>k. k < length bs \<Longrightarrow> tr (a + of_nat k) = b + of_nat k"
  shows "st_bytes tr m a bs = st_bytes (\<lambda>a. a) m b bs"
  using assms
proof (induction bs arbitrary: m a b)
  case (Cons c bs)
  have "tr (a + 1 + of_nat k) = b + 1 + of_nat k" if "k < length bs" for k
    using Cons.prems [of "Suc k"] that by (simp add: add.assoc)
  then have "st_bytes tr m' (a + 1) bs = st_bytes (\<lambda>a. a) m' (b + 1) bs" for m'
    by (rule Cons.IH)
  moreover have "tr a = b" using Cons.prems [of 0] by simp
  ultimately show ?case by (simp add: st8_def)
qed simp

lemma entry_byte:
  assumes "t = of_nat (4096 * f)" "f < 4294967296" "i < 512" "k < 8"
  shows "frame_of (t + of_nat (8 * i) + of_nat k) = f"
proof -
  have "t + of_nat (8 * i) + of_nat k = of_nat (4096 * f) + of_nat (8 * i + k)"
    by (simp add: assms(1) del: of_nat_mult)
  moreover have "8 * i + k < 4096" using assms(3,4) by simp
  ultimately show ?thesis
    using frame_of_nat(2) [OF assms(2)] by (simp only:)
qed

lemma foot_entry:
  assumes "t = of_nat (4096 * f)" "f < 4294967296" "i < 512" "p \<in> foot (\<lambda>a. a) (t + of_nat (8 * i)) 8"
  shows "frame_of p = f"
  using assms(4) entry_byte [OF assms(1-3)] by (auto simp: foot_def)

text \<open>Entries are independent words.\<close>

lemma pte_set:
  assumes a: "a = of_nat (4096 * f)" "f < 4294967296" "i < 512" and b: "b = of_nat (4096 * g)" "g < 4294967296" "j < 512"
  shows "pte (st64 (\<lambda>a. a) m (a + of_nat (8 * i)) v) b j = (if a = b \<and> i = j then v else pte m b j)"
proof (cases "a = b \<and> i = j")
  case True
  then show ?thesis by (simp add: pte_def ld64_st64 inj_at_id)
next
  case False
  have "foot (\<lambda>a. a) (b + of_nat (8 * j)) 8 \<inter> foot (\<lambda>a. a) (a + of_nat (8 * i)) 8 = {}"
  proof (cases "a = b")
    case True
    have "inj_at (\<lambda>a. a) b 4096" by (simp add: inj_at_id)
    moreover have "8 * j + 8 \<le> 8 * i \<or> 8 * i + 8 \<le> 8 * j" using False True by auto
    ultimately show ?thesis
      unfolding True using a(3) b(3) by (intro foot_apart [where N = 4096]) auto
  next
    case False
    then have "f \<noteq> g" using a(1) b(1) by auto
    then show ?thesis
      using foot_entry [OF a] foot_entry [OF b] by blast
  qed
  then show ?thesis
    using False by (auto simp: pte_def intro: ld64_st64_other)
qed

lemma pte_cong:
  assumes "t = of_nat (4096 * f)" "f < 4294967296" "i < 512" "\<And>p. frame_of p = f \<Longrightarrow> m p = m' p"
  shows "pte m t i = pte m' t i"
  unfolding pte_def using foot_entry [OF assms(1-3)] assms(4) by (intro ld64_cong) blast

lemma table_at_cong:
  assumes down: "\<And>q j. P (q @ [j]) \<Longrightarrow> P q"
    and same: "\<And>q j b. P (q @ [j]) \<Longrightarrow> table_at m pt q = Some b \<Longrightarrow> pte m' b j = pte m b j"
  shows "P q \<Longrightarrow> table_at m' pt q = table_at m pt q"
proof (induction q rule: rev_induct)
  case (snoc j q)
  then have "table_at m' pt q = table_at m pt q" using down by blast
  then show ?case
    using same [OF snoc.prems] by (auto simp: table_at_snoc split: option.splits)
qed simp

lemma paths_snoc: "p @ [i] \<in> paths \<Longrightarrow> p \<in> paths \<and> i < 512 \<and> length p < 3"
  by (auto simp: paths_def)

lemma table_okD:
  assumes "paging_ok s pt" "p \<in> paths" "table_at (mem s) pt p = Some a"
  shows "a = of_nat (4096 * frame_of a)" "frame_of a < 4294967296" "frame_of a < nframes s"
    "used s (frame_of a)" "frame_of a \<notin> frame_of ` bm_region s"
  using assms pmm_okD(1) [of s] by (auto simp: paging_ok_def table_ok_def)

lemma paging_okD:
  assumes "paging_ok s pt"
  shows "pmm_ok s" "frame_of a < nframes s \<Longrightarrow> vtr s (a + hhdm s) = a"
    "p \<in> paths \<Longrightarrow> q \<in> paths \<Longrightarrow> table_at (mem s) pt p = Some a \<Longrightarrow> table_at (mem s) pt q = Some a \<Longrightarrow> p = q"
    "p @ [i] \<in> paths \<Longrightarrow> table_at (mem s) pt p = Some b \<Longrightarrow> bit (pte (mem s) b i) 0 \<Longrightarrow> \<not> bit (pte (mem s) b i) 7"
    "small_pages (mem s) pt"
  using assms unfolding paging_ok_def small_pages_def by blast+

text \<open>Reading and writing an entry the way the code does.\<close>

lemma load_entry:
  assumes "\<And>a. frame_of a < nframes s \<Longrightarrow> vtr s (a + hhdm s) = a"
    and t: "t = of_nat (4096 * f)" "f < 4294967296" "f < nframes s" and i: "i < 512"
  shows "load64 s (t + hhdm s + 8 * of_nat i) = pte (mem s) t i"
    and "mem (store64 (t + hhdm s + 8 * of_nat i) v s) = st64 (\<lambda>a. a) (mem s) (t + of_nat (8 * i)) v"
proof -
  have via: "vtr s (t + hhdm s + 8 * of_nat i + of_nat k) = t + of_nat (8 * i) + of_nat k" if "k < 8" for k
    using assms(1) [of "t + of_nat (8 * i) + of_nat k"] entry_byte [OF t(1,2) i that] t(3)
    by (simp add: algebra_simps)
  show "load64 s (t + hhdm s + 8 * of_nat i) = pte (mem s) t i"
    unfolding ld64_def pte_def by (rule arg_cong [OF ld_bytes_via], rule via)
  show "mem (store64 (t + hhdm s + 8 * of_nat i) v s) = st64 (\<lambda>a. a) (mem s) (t + of_nat (8 * i)) v"
  proof -
    have "st_bytes (vtr s) (mem s) (t + hhdm s + 8 * of_nat i) (le_bytes 8 v) =
        st_bytes (\<lambda>a. a) (mem s) (t + of_nat (8 * i)) (le_bytes 8 v)"
      by (rule st_bytes_via, rule via) simp
    then show ?thesis
      by (simp add: store64_def st64_def)
  qed
qed

section \<open>What one level of the walk does\<close>

definition free_frames :: "'a pmm_scheme \<Rightarrow> nat" where
  "free_frames s = card {k. k < nframes s \<and> \<not> used s k}"

lemma free_frames_alloc:
  assumes ok: "pmm_ok s" and c: "pmalloc 1 s = (a, t)" and f: "0 < free_frames s"
  shows "a \<noteq> 0" "free_frames s = Suc (free_frames t)"
proof -
  let ?F = "\<lambda>s. {k. k < nframes s \<and> \<not> used s k}"
  have "?F s \<noteq> {}" using f by (metis card.empty free_frames_def less_irrefl)
  then show a: "a \<noteq> 0"
    using pmalloc_1_zero_iff(1) [OF ok c] by blast
  have "?F s = insert (frame_of a) (?F t)" "frame_of a \<notin> ?F t"
    using pm.alloc_in_use [OF ok c] pm.alloc_frames [OF ok c] pm.alloc_some [OF ok c a] a by auto
  then show "free_frames s = Suc (free_frames t)"
    by (simp add: free_frames_def)
qed

text \<open>The leaf entry at the end of a path of three indices.\<close>

definition leaf_at :: "memory \<Rightarrow> u64 \<Rightarrow> nat list \<Rightarrow> nat \<Rightarrow> u64 option" where
  "leaf_at m pt p j = (case table_at m pt p of None \<Rightarrow> None
     | Some a \<Rightarrow> if bit (pte m a j) 0 then Some (pte m a j) else None)"

lemma new_entry_bits:
  assumes "f = of_nat (4096 * n)"
  shows "bit (f OR PAG_PRESENT OR PAG_WRITABLE OR PAG_USER) 0"
    and "(f OR PAG_PRESENT OR PAG_WRITABLE OR PAG_USER) AND NOT PAG_4K_FLAGS = f"
    and "\<not> bit (f OR PAG_PRESENT OR PAG_WRITABLE OR PAG_USER) 7"
proof -
  have f: "f = push_bit 12 (of_nat n)"
    by (simp add: assms push_bit_frame)
  have c: "f OR PAG_PRESENT OR PAG_WRITABLE OR PAG_USER = f OR 7"
    by (simp add: PAG_PRESENT_def PAG_WRITABLE_def PAG_USER_def or.assoc)
  have m: "(7 :: u64) = mask 3" "PAG_4K_FLAGS = mask 10"
    by (simp_all add: PAG_4K_FLAGS_def mask_eq_exp_minus_1)
  show "bit (f OR PAG_PRESENT OR PAG_WRITABLE OR PAG_USER) 0"
    by (simp add: c bit_or_iff)
  show "\<not> bit (f OR PAG_PRESENT OR PAG_WRITABLE OR PAG_USER) 7"
    unfolding c m by (simp add: f bit_or_iff bit_mask_iff bit_push_bit_iff)
  show "(f OR PAG_PRESENT OR PAG_WRITABLE OR PAG_USER) AND NOT PAG_4K_FLAGS = f"
    unfolding c m by (rule bit_word_eqI) (auto simp: f bit_or_iff bit_and_iff bit_not_iff bit_mask_iff bit_push_bit_iff)
qed

lemma zero_frame_pte:
  assumes "c = of_nat (4096 * f)" "f < 4294967296" "i < 512" "\<And>p. frame_of p = f \<Longrightarrow> m p = 0"
  shows "pte m c i = 0"
proof -
  have "pte m c i = pte (\<lambda>_. 0) c i"
    using assms by (intro pte_cong)
  also have "\<dots> = 0"
    by (simp add: pte_def ld64_def ld_bytes_def ld8_def upt_rec)
  finally show ?thesis .
qed

lemma table_at_append:
  "table_at m t (xs @ ys) = (case table_at m t xs of None \<Rightarrow> None | Some a \<Rightarrow> table_at m a ys)"
  by (induction xs arbitrary: t) auto

lemma frame_notin_image: "frame_of b \<notin> frame_of ` X \<Longrightarrow> frame_of p = frame_of b \<Longrightarrow> p \<notin> X"
  by (metis imageI)

text \<open>An entry written into a table: which tables the paths lead to afterwards.\<close>

lemma alloc_keeps_tables:
  assumes ok: "paging_ok s pt" and c: "pmalloc 1 s = (f, s1)"
    and b: "q \<in> paths" "table_at (mem s) pt q = Some b" "j < 512"
  shows "pte (mem s1) b j = pte (mem s) b j"
proof -
  note d = table_okD [OF ok b(1,2)]
  have "mem s1 p = mem s p" if "frame_of p = frame_of b" for p
    using pm.alloc_keeps_used [OF paging_okD(1) [OF ok] c, of p] frame_notin_image [OF d(5) that] d(4) that by auto
  then show ?thesis
    using pte_cong [OF d(1,2) b(3)] by blast
qed

lemma pmm_ok_store:
  assumes ok: "pmm_ok s" and m: "same_but_mem s t" "\<And>p. p \<in> bm_region s \<Longrightarrow> mem t p = mem s p"
  shows "pmm_ok t" "k < nframes s \<Longrightarrow> used t k = used s k"
proof -
  have u: "used t k = used s k" if "k < nframes s" for k
    using same_but_mem_machine [OF m(1)] same_but_mem_pmm [OF m(1)] that m(2)
    by (simp add: used_iff_mem nframes_def in_foot less_mult_imp_div_less mult.commute)
  then show "k < nframes s \<Longrightarrow> used t k = used s k" .
  show "pmm_ok t"
    using pmm_ok_cong [OF ok m(1), of "{}" "{}"] u by simp
qed

text \<open>An allocation, and then writes outside the bitmap.\<close>

lemma alloc_then_write:
  assumes ok: "pmm_ok s" and c: "pmalloc 1 s = (f, s1)" and f: "f \<noteq> 0" and same: "same_but_mem s1 t"
    and keep: "\<And>p. p \<in> bm_region s1 \<Longrightarrow> mem t p = mem s1 p"
  shows "pmm_ok t" "k < nframes s \<Longrightarrow> used t k \<longleftrightarrow> used s k \<or> k = frame_of f"
proof -
  have "same_but_mem s s1" using pmalloc_same [of s 1] c by simp
  note e = same_but_mem_pmm [OF this]
  show "pmm_ok t" using pmm_ok_store(1) [OF pm.alloc_ok [OF ok c] same keep] by blast
  show "used t k \<longleftrightarrow> used s k \<or> k = frame_of f" if "k < nframes s"
    using pmm_ok_store(2) [OF pm.alloc_ok [OF ok c] same keep, of k] pm.alloc_in_use [OF ok c that] f that e by auto
qed

lemma set_entry:
  assumes ok: "paging_ok s pt" and path: "p @ [i] \<in> paths" and a: "table_at (mem s) pt p = Some a"
    and absent: "\<not> bit (pte (mem s) a i) 0" and c: "pmalloc 1 s = (f, s1)" and f: "f \<noteq> 0"
  defines "t \<equiv> store64 (a + hhdm s + 8 * of_nat i) (f OR PAG_PRESENT OR PAG_WRITABLE OR PAG_USER) s1"
  shows "table_at (mem t) pt (p @ [i]) = Some f" (is ?new)
    and "q \<in> paths \<Longrightarrow> \<not> prefix (p @ [i]) q \<Longrightarrow> table_at (mem t) pt q = table_at (mem s) pt q"
    and "q \<in> paths \<Longrightarrow> prefix (p @ [i]) q \<Longrightarrow> table_at (mem s) pt q = None"
    and "q \<in> paths \<Longrightarrow> strict_prefix (p @ [i]) q \<Longrightarrow> table_at (mem t) pt q = None"
    and "j < 512 \<Longrightarrow> pte (mem t) f j = 0"
    and "q \<in> paths \<Longrightarrow> table_at (mem s) pt q = Some b \<Longrightarrow> j < 512 \<Longrightarrow> q @ [j] \<noteq> p @ [i] \<Longrightarrow>
      pte (mem t) b j = pte (mem s) b j"
    and "same_but_mem s t" "pmm_ok t" "k < nframes s \<Longrightarrow> used t k \<longleftrightarrow> used s k \<or> k = frame_of f"
    and "pte (mem t) a i = f OR PAG_PRESENT OR PAG_WRITABLE OR PAG_USER"
proof -
  let ?e = "f OR PAG_PRESENT OR PAG_WRITABLE OR PAG_USER"
  have pp: "p \<in> paths" "i < 512" "length p < 3" using paths_snoc [OF path] by auto
  note A = table_okD [OF ok pp(1) a]
  note pok = paging_okD(1) [OF ok]
  note F = pm.alloc_some [OF pok c f]
  have f32: "frame_of f < 4294967296" using F pmm_okD(1) [OF pok] by simp
  have same1: "same_but_mem s s1" using pmalloc_same [of s 1] c by simp
  note eq1 = same_but_mem_machine [OF same1] same_but_mem_pmm [OF same1]
  have window: "vtr s1 (x + hhdm s1) = x" if "frame_of x < nframes s1" for x
    using paging_okD(2) [OF ok, of x] that eq1 by simp
  have mt: "mem t = st64 (\<lambda>a. a) (mem s1) (a + of_nat (8 * i)) ?e"
    using load_entry(2) [OF window A(1,2) _ pp(2), of ?e] A(3) eq1 unfolding t_def by simp
  show same: "same_but_mem s t"
    unfolding t_def using same_but_mem_trans [OF same1] by blast
  have old: "pte (mem t) b j = (if a = b \<and> i = j then ?e else pte (mem s) b j)"
    if "q \<in> paths" "table_at (mem s) pt q = Some b" "j < 512" for q b j
    using pte_set [OF A(1,2) pp(2) table_okD(1,2) [OF ok that(1,2)] that(3)] alloc_keeps_tables [OF ok c that]
    by (simp add: mt)
  then show "q \<in> paths \<Longrightarrow> table_at (mem s) pt q = Some b \<Longrightarrow> j < 512 \<Longrightarrow> q @ [j] \<noteq> p @ [i] \<Longrightarrow>
      pte (mem t) b j = pte (mem s) b j" for q b j
    using paging_okD(3) [OF ok _ pp(1) _ a] by auto
  have "a \<noteq> f" using A(4) F by auto
  then show zero: "pte (mem t) f j = 0" if "j < 512" for j
    using pte_set [OF A(1,2) pp(2), of f "frame_of f" j] that F f32
      zero_frame_pte [of f "frame_of f" j "mem s1"] pm.alloc_zero [OF pok c f] by (simp add: mt)
  show other: "table_at (mem t) pt q = table_at (mem s) pt q" if q: "q \<in> paths" "\<not> prefix (p @ [i]) q" for q
  proof (rule table_at_cong [where P = "\<lambda>q. q \<in> paths \<and> \<not> prefix (p @ [i]) q"])
    show "q \<in> paths \<and> \<not> prefix (p @ [i]) q" using q by blast
    show "q @ [j] \<in> paths \<and> \<not> prefix (p @ [i]) (q @ [j]) \<Longrightarrow> q \<in> paths \<and> \<not> prefix (p @ [i]) q" for q j
      using paths_snoc by auto
    show "pte (mem t) b j = pte (mem s) b j"
      if "q @ [j] \<in> paths \<and> \<not> prefix (p @ [i]) (q @ [j])" "table_at (mem s) pt q = Some b" for q j b
      using old [of q b j] paths_snoc [of q j] paging_okD(3) [OF ok _ pp(1) _ a, of q] that by auto
  qed
  have "\<not> prefix (p @ [i]) p" by (auto dest: prefix_length_le)
  then have "table_at (mem t) pt p = Some a" using other [OF pp(1)] a by simp
  then show ?new
    using old [OF pp(1) a pp(2)] new_entry_bits [of f "frame_of f"] F by (simp add: table_at_snoc)
  show "pte (mem t) a i = ?e" using old [OF pp(1) a pp(2)] by simp
  have before: "table_at (mem s) pt (p @ [i]) = None"
    using a absent by (simp add: table_at_snoc)
  then show "q \<in> paths \<Longrightarrow> prefix (p @ [i]) q \<Longrightarrow> table_at (mem s) pt q = None" for q
    by (auto simp: prefix_def table_at_append simp del: append_assoc)
  show "table_at (mem t) pt q = None" if q: "q \<in> paths" "strict_prefix (p @ [i]) q" for q
  proof -
    obtain k r where r: "q = (p @ [i]) @ k # r" using q(2) by (rule strict_prefixE')
    then have "k < 512" using q(1) by (simp add: paths_def)
    then show ?thesis
      unfolding r table_at_append [of _ _ "p @ [i]"] \<open>?new\<close> by (simp add: zero)
  qed
  have keep: "mem t x = mem s1 x" if "x \<in> bm_region s1" for x
  proof -
    have "frame_of x \<noteq> frame_of a" using frame_notin_image [OF A(5), of x] that eq1 by metis
    then have "x \<notin> foot (\<lambda>a. a) (a + of_nat (8 * i)) 8"
      using foot_entry [OF A(1,2) pp(2)] by blast
    then show ?thesis by (simp add: mt st64_other)
  qed
  have same2: "same_but_mem s1 t" by (simp add: t_def)
  note W = alloc_then_write [OF pok c f same2 keep]
  show "pmm_ok t" using W(1) by simp
  show "used t k \<longleftrightarrow> used s k \<or> k = frame_of f" if "k < nframes s" for k using W(2) [OF _ that] by simp
qed

lemma set_entry_paging_ok:
  assumes ok: "paging_ok s pt" and path: "p @ [i] \<in> paths" and a: "table_at (mem s) pt p = Some a"
    and absent: "\<not> bit (pte (mem s) a i) 0" and c: "pmalloc 1 s = (f, s1)" and f: "f \<noteq> 0"
  defines "t \<equiv> store64 (a + hhdm s + 8 * of_nat i) (f OR PAG_PRESENT OR PAG_WRITABLE OR PAG_USER) s1"
  shows "paging_ok t pt"
    and "q \<in> paths \<Longrightarrow> length q = 3 \<Longrightarrow> j < 512 \<Longrightarrow> leaf_at (mem t) pt q j = leaf_at (mem s) pt q j"
proof -
  note S = set_entry [OF ok path a absent c f, folded t_def]
  note pok = paging_okD(1) [OF ok]
  note eq = same_but_mem_machine [OF S(7)] same_but_mem_pmm [OF S(7)]
  have cases: "table_at (mem t) pt q = (if q = p @ [i] then Some f else if prefix (p @ [i]) q then None else table_at (mem s) pt q)"
    if "q \<in> paths" for q
    using S(1) S(2,4) [OF that] by (auto simp: strict_prefix_def)
  have fresh: "table_at (mem s) pt q \<noteq> Some f" if "q \<in> paths" for q
    using table_okD(4) [OF ok that, of f] pm.alloc_some [OF pok c f] by blast
  have old: "table_ok t b" if "table_ok s b" for b
    using that eq S(9) [of "frame_of b"] by (simp add: table_ok_def)
  have new: "table_ok t f"
    using pm.alloc_some [OF pok c f] pm.alloc_fresh_not_own [OF pok c f] eq S(9) [of "frame_of f"]
    by (auto simp: table_ok_def)
  show "paging_ok t pt"
    unfolding paging_ok_def
  proof (intro conjI ballI allI impI)
    show "pmm_ok t" by (rule S(8))
    show "vtr t (x + hhdm t) = x" if "frame_of x < nframes t" for x
      using paging_okD(2) [OF ok, of x] that eq by simp
    show "table_ok t b" if "q \<in> paths" "table_at (mem t) pt q = Some b" for q b
      using that cases [OF that(1)] new old ok by (auto simp: paging_ok_def split: if_splits)
    show "q = r" if "q \<in> paths" "r \<in> paths" "table_at (mem t) pt q = Some b" "table_at (mem t) pt r = Some b" for q r b
      using that cases [OF that(1)] cases [OF that(2)] fresh paging_okD(3) [OF ok that(1,2)]
      by (auto split: if_splits)
    show "small_pages (mem t) pt"
    proof (rule small_pages_cong [OF _ paging_okD(5) [OF ok]])
      fix q j b
      assume q: "q @ [j] \<in> paths" "table_at (mem t) pt q = Some b"
      note Q = paths_snoc [OF q(1)]
      consider "b = f" | "table_at (mem s) pt q = Some b" "q @ [j] = p @ [i]" | "table_at (mem s) pt q = Some b" "q @ [j] \<noteq> p @ [i]"
        using cases [of q] Q q(2) by (auto split: if_splits)
      then show "(\<exists>q'. q' @ [j] \<in> paths \<and> (\<exists>b'. table_at (mem s) pt q' = Some b' \<and> pte (mem t) b j = pte (mem s) b' j)) \<or>
        \<not> bit (pte (mem t) b j) 0 \<or> \<not> bit (pte (mem t) b j) 7"
      proof cases
        case 1
        then show ?thesis using S(5) [of j] Q by simp
      next
        case 2
        then show ?thesis using S(10) a new_entry_bits(3) [of f "frame_of f"] pm.alloc_some [OF pok c f] by simp
      next
        case 3
        then show ?thesis using S(6) [of q b j] Q q(1) by blast
      qed
    qed
  qed
  show "leaf_at (mem t) pt q j = leaf_at (mem s) pt q j" if q: "q \<in> paths" "length q = 3" "j < 512" for q j
  proof (cases "prefix (p @ [i]) q")
    case True
    then show ?thesis
      using S(3) [OF q(1) True] cases [OF q(1)] S(5) [OF q(3)] by (auto simp: leaf_at_def)
  next
    case False
    have "q @ [j] \<noteq> p @ [i]" using q(2) paths_snoc [OF path] by auto
    then show ?thesis
      using S(2) [OF q(1) False] S(6) [OF q(1) _ q(3)] by (auto simp: leaf_at_def split: option.splits)
  qed
qed

text \<open>The step of the walk, on a present and on an absent entry.\<close>

text \<open>
  A byte of memory that the page tables and the frame pool leave to others: it is not in the bitmap,
  not in a free frame and not in a table under \<open>pt\<close>. An operation \<open>keeps\<close> what is foreign when no such
  byte changes or stops being foreign.
\<close>

definition foreign :: "'a pmm_scheme \<Rightarrow> u64 \<Rightarrow> u64 \<Rightarrow> bool" where
  "foreign s pt x \<longleftrightarrow> x \<notin> bm_region s \<and> (frame_of x < nframes s \<longrightarrow> used s (frame_of x)) \<and>
     (\<forall>q\<in>paths. \<forall>a. table_at (mem s) pt q = Some a \<longrightarrow> frame_of x \<noteq> frame_of a)"

definition keeps :: "'a pmm_scheme \<Rightarrow> u64 \<Rightarrow> 'a pmm_scheme \<Rightarrow> bool" where
  "keeps s pt t \<longleftrightarrow> same_but_io s t \<and> (\<forall>x. foreign s pt x \<longrightarrow> mem t x = mem s x \<and> foreign t pt x)"

lemma keeps_refl [simp]: "keeps s pt s"
  by (simp add: keeps_def)

lemma keeps_trans [trans]: "keeps s pt t \<Longrightarrow> keeps t pt u \<Longrightarrow> keeps s pt u"
  using same_but_io_trans by (auto simp: keeps_def)

lemma keepsD: "keeps s pt t \<Longrightarrow> foreign s pt x \<Longrightarrow> mem t x = mem s x" "keeps s pt t \<Longrightarrow> foreign s pt x \<Longrightarrow> foreign t pt x"
  "keeps s pt t \<Longrightarrow> same_but_io s t"
  by (simp_all add: keeps_def)

lemma used_io:
  assumes "same_but_io s t" "\<And>x. x \<in> bm_region s \<Longrightarrow> mem t x = mem s x" "k < nframes s"
  shows "used t k = used s k"
  using same_but_io_machine [OF assms(1)] same_but_io_pmm [OF assms(1)] assms(2,3)
  by (simp add: used_iff_mem nframes_def in_foot less_mult_imp_div_less mult.commute)

lemma set_entry_keeps:
  assumes ok: "paging_ok s pt" and path: "p @ [i] \<in> paths" and a: "table_at (mem s) pt p = Some a"
    and absent: "\<not> bit (pte (mem s) a i) 0" and c: "pmalloc 1 s = (f, s1)" and f: "f \<noteq> 0"
  defines "t \<equiv> store64 (a + hhdm s + 8 * of_nat i) (f OR PAG_PRESENT OR PAG_WRITABLE OR PAG_USER) s1"
  shows "keeps s pt t"
proof -
  note S = set_entry [OF ok path a absent c f, folded t_def]
  note pok = paging_okD(1) [OF ok]
  have pp: "p \<in> paths" "i < 512" using paths_snoc [OF path] by auto
  note A = table_okD [OF ok pp(1) a]
  have same1: "same_but_mem s s1" using pmalloc_same [of s 1] c by simp
  note eq1 = same_but_mem_machine [OF same1] same_but_mem_pmm [OF same1]
  note eq = same_but_mem_machine [OF S(7)] same_but_mem_pmm [OF S(7)]
  have "vtr s1 (x + hhdm s1) = x" if "frame_of x < nframes s1" for x
    using paging_okD(2) [OF ok, of x] that eq1 by simp
  note mt = load_entry(2) [OF this A(1,2) _ pp(2), of "f OR PAG_PRESENT OR PAG_WRITABLE OR PAG_USER"]
  have keep: "mem t x = mem s x" if x: "foreign s pt x" for x
  proof -
    have "frame_of x \<noteq> frame_of a" using x pp(1) a by (auto simp: foreign_def)
    then have "x \<notin> foot (\<lambda>a. a) (a + of_nat (8 * i)) 8"
      using foot_entry [OF A(1,2) pp(2)] by blast
    then have "mem t x = mem s1 x"
      using mt A(3) eq1 by (simp add: t_def st64_other)
    also have "\<dots> = mem s x"
      using x by (intro pm.alloc_keeps_used [OF pok c]) (auto simp: foreign_def)
    finally show ?thesis .
  qed
  have tab: "y = f \<or> table_at (mem s) pt q = Some y" if "q \<in> paths" "table_at (mem t) pt q = Some y" for q y
    using that S(1) S(2,4) [OF that(1)] by (cases "prefix (p @ [i]) q"; cases "q = p @ [i]") (auto simp: strict_prefix_def)
  have "frame_of x \<noteq> frame_of f" if "foreign s pt x" for x
    using that pm.alloc_some [OF pok c f] by (auto simp: foreign_def)
  then have "frame_of x \<noteq> frame_of y" if "foreign s pt x" "q \<in> paths" "table_at (mem t) pt q = Some y" for x q y
    using tab [OF that(2,3)] that(1,2) by (auto simp: foreign_def)
  moreover have "used t (frame_of x)" if "foreign s pt x" "frame_of x < nframes s" for x
    using that S(9) [OF that(2)] by (simp add: foreign_def)
  ultimately have "foreign t pt x" if "foreign s pt x" for x
    using that unfolding foreign_def [of t pt] by (simp add: eq foreign_def [of s pt])
  with keep show ?thesis
    using same_but_mem_io [OF S(7)] by (simp add: keeps_def)
qed

lemma present_bit: "(e :: u64) AND PAG_PRESENT = 0 \<longleftrightarrow> \<not> bit e 0"
  by (simp add: PAG_PRESENT_def and_one_eq bit_0 even_iff_mod_2_eq_zero)

lemma get_alloc_next_step:
  assumes ok: "paging_ok s pt" and path: "p @ [i] \<in> paths" and a: "table_at (mem s) pt p = Some a"
    and free: "0 < free_frames s"
  obtains b t where "get_alloc_next (a + hhdm s) (of_nat i) s = (b + hhdm t, t)"
    and "table_at (mem t) pt (p @ [i]) = Some b" and "paging_ok t pt" and "same_but_mem s t" and "keeps s pt t"
    and "free_frames s \<le> Suc (free_frames t)"
    and "\<And>q j. q \<in> paths \<Longrightarrow> length q = 3 \<Longrightarrow> j < 512 \<Longrightarrow> leaf_at (mem t) pt q j = leaf_at (mem s) pt q j"
proof -
  have pp: "p \<in> paths" "i < 512" using paths_snoc [OF path] by auto
  note A = table_okD [OF ok pp(1) a]
  have ld: "load64 s (a + hhdm s + 8 * of_nat i) = pte (mem s) a i"
    using load_entry(1) [OF paging_okD(2) [OF ok] A(1,2,3) pp(2)] by blast
  show thesis
  proof (cases "bit (pte (mem s) a i) 0")
    case True
    show thesis
    proof (rule that [of "pte (mem s) a i AND NOT PAG_4K_FLAGS" s])
      show "get_alloc_next (a + hhdm s) (of_nat i) s = ((pte (mem s) a i AND NOT PAG_4K_FLAGS) + hhdm s, s)"
        using True ld by (simp add: get_alloc_next_def present_bit PHYS_TO_VIRT_def Let_def)
      show "table_at (mem s) pt (p @ [i]) = Some (pte (mem s) a i AND NOT PAG_4K_FLAGS)"
        using True a by (simp add: table_at_snoc)
    qed (use ok in auto)
  next
    case False
    obtain f s1 where c: "pmalloc 1 s = (f, s1)" by fastforce
    have f: "f \<noteq> 0" and ff: "free_frames s = Suc (free_frames s1)"
      using free_frames_alloc [OF paging_okD(1) [OF ok] c free] by auto
    define t where "t = store64 (a + hhdm s + 8 * of_nat i) (f OR PAG_PRESENT OR PAG_WRITABLE OR PAG_USER) s1"
    note S = set_entry [OF ok path a False c f, folded t_def] set_entry_paging_ok [OF ok path a False c f, folded t_def]
    note eq = same_but_mem_machine [OF S(7)] same_but_mem_pmm [OF S(7)]
    have frame_a: "frame_of a < nframes t" using A(3) eq by simp
    have "load64 t (a + hhdm t + 8 * of_nat i) = pte (mem t) a i"
      using load_entry(1) [OF paging_okD(2) [OF S(11)] A(1,2) frame_a pp(2)] by blast
    moreover have "bit (pte (mem t) a i) 0 \<and> f = pte (mem t) a i AND NOT PAG_4K_FLAGS"
    proof -
      have "\<not> prefix (p @ [i]) p" by (auto dest: prefix_length_le)
      then have "table_at (mem t) pt p = Some a" using S(2) [OF pp(1)] a by simp
      then show ?thesis using S(1) by (simp add: table_at_snoc split: if_splits)
    qed
    ultimately have ldt: "load64 t (a + hhdm s + 8 * of_nat i) AND NOT PAG_4K_FLAGS = f"
      using eq by simp
    have "get_alloc_next (a + hhdm s) (of_nat i) s =
        (PHYS_TO_VIRT t (load64 t (a + hhdm s + 8 * of_nat i) AND NOT PAG_4K_FLAGS), t)"
      unfolding get_alloc_next_def Let_def present_bit ld c prod.case t_def [symmetric] using False by simp
    then have "get_alloc_next (a + hhdm s) (of_nat i) s = (f + hhdm t, t)"
      unfolding ldt PHYS_TO_VIRT_def .
    moreover have "free_frames t = free_frames s1"
    proof -
      have "{k. k < nframes t \<and> \<not> used t k} = {k. k < nframes s1 \<and> \<not> used s1 k}"
        using S(9) eq pm.alloc_in_use [OF paging_okD(1) [OF ok] c] pm.alloc_frames [OF paging_okD(1) [OF ok] c] f by auto
      then show ?thesis by (simp add: free_frames_def)
    qed
    ultimately show thesis
      using S(1,7,11,12) ff set_entry_keeps [OF ok path a False c f, folded t_def] by (intro that [of f t]) simp_all
  qed
qed

section \<open>The processor's view\<close>

lemma cpu_mask_agrees:
  assumes e: "e AND NOT PAG_4K_FLAGS = of_nat (4096 * f)" and f: "f < 4294967296"
  shows "e AND 0x000FFFFFFFFFF000 = e AND NOT PAG_4K_FLAGS"
proof (rule bit_word_eqI)
  fix n
  assume n: "n < LENGTH(64)"
  have small: "bit (of_nat f :: u64) k \<Longrightarrow> k < 32" for k
  proof -
    have "take_bit 32 (of_nat f :: u64) = of_nat f"
      using f by (simp add: of_nat_take_bit [symmetric] take_bit_nat_eq_self)
    then show "bit (of_nat f :: u64) k \<Longrightarrow> k < 32"
      by (metis bit_take_bit_iff)
  qed
  have h: "(0x000FFFFFFFFFF000 :: u64) = push_bit 12 (mask 40)" "PAG_4K_FLAGS = mask 10"
    by (simp_all add: mask_eq_exp_minus_1 PAG_4K_FLAGS_def push_bit_eq_mult)
  have "bit (e AND NOT PAG_4K_FLAGS) n = bit (push_bit 12 (of_nat f :: u64)) n"
    by (simp only: e push_bit_frame)
  then have "bit (e AND NOT PAG_4K_FLAGS) n \<longleftrightarrow> 12 \<le> n \<and> bit (of_nat f :: u64) (n - 12)"
    using n by (simp add: bit_push_bit_iff)
  moreover have "bit (e AND NOT PAG_4K_FLAGS) n \<longleftrightarrow> 10 \<le> n \<and> bit e n"
    using n unfolding h by (auto simp: bit_and_iff bit_not_iff bit_mask_iff)
  moreover have "bit (e AND 0x000FFFFFFFFFF000) n \<longleftrightarrow> 12 \<le> n \<and> n < 52 \<and> bit e n"
    using n unfolding h by (auto simp: bit_and_iff bit_push_bit_iff bit_mask_iff)
  ultimately show "bit (e AND 0x000FFFFFFFFFF000) n = bit (e AND NOT PAG_4K_FLAGS) n"
    using small [of "n - 12"] by auto
qed

lemma cpu_walk_leaf:
  assumes ok: "paging_ok s pt" and q: "q \<in> paths" "j < 512"
  shows "cpu_walk (mem s) pt (q @ [j]) = leaf_at (mem s) pt q j"
proof -
  have "cpu_walk (mem s) a (r @ [j]) = leaf_at (mem s) a r j"
    if "p @ r \<in> paths" "table_at (mem s) pt p = Some a" for p r a
    using that
  proof (induction r arbitrary: p a)
    case Nil
    then show ?case by (simp add: leaf_at_def)
  next
    case (Cons i r)
    let ?e = "pte (mem s) a i"
    have path: "p @ [i] \<in> paths" using Cons.prems(1) by (auto simp: paths_def)
    show ?case
    proof (cases "bit ?e 0")
      case True
      then have t: "table_at (mem s) pt (p @ [i]) = Some (?e AND NOT PAG_4K_FLAGS)"
        using Cons.prems(2) by (simp add: table_at_snoc)
      have m: "?e AND 0x000FFFFFFFFFF000 = ?e AND NOT PAG_4K_FLAGS"
        by (rule cpu_mask_agrees [OF table_okD(1,2) [OF ok path t]])
      have "cpu_walk (mem s) (?e AND NOT PAG_4K_FLAGS) (r @ [j]) = leaf_at (mem s) (?e AND NOT PAG_4K_FLAGS) r j"
        using Cons.IH [OF _ t] Cons.prems(1) by simp
      moreover have "\<not> bit ?e 7" using paging_okD(4) [OF ok path Cons.prems(2) True] .
      ultimately show ?thesis
        using True m by (cases r) (simp_all add: leaf_at_def)
    next
      case False
      then show ?thesis by (cases r) (simp_all add: leaf_at_def)
    qed
  qed
  from this [of "[]" q pt] q show ?thesis by simp
qed

lemma set_leaf:
  assumes ok: "paging_ok s pt" and q: "q \<in> paths" "length q = 3" and b: "table_at (mem s) pt q = Some b"
    and i: "i < 512" and e: "bit e 0"
  defines "t \<equiv> store64 (b + hhdm s + 8 * of_nat i) e s"
  shows "paging_ok t pt"
    and "r \<in> paths \<Longrightarrow> length r = 3 \<Longrightarrow> j < 512 \<Longrightarrow>
      leaf_at (mem t) pt r j = (if r = q \<and> j = i then Some e else leaf_at (mem s) pt r j)"
    and "keeps s pt t" "free_frames t = free_frames s"
proof -
  note B = table_okD [OF ok q(1) b]
  have mt: "mem t = st64 (\<lambda>a. a) (mem s) (b + of_nat (8 * i)) e"
    using load_entry(2) [OF paging_okD(2) [OF ok] B(1,2,3) i] unfolding t_def by blast
  have same: "same_but_mem s t" by (simp add: t_def)
  note eq = same_but_mem_machine [OF same] same_but_mem_pmm [OF same]
  have pt: "pte (mem t) a j = (if r = q \<and> j = i then e else pte (mem s) a j)"
    if "r \<in> paths" "table_at (mem s) pt r = Some a" "j < 512" for r a j
    using pte_set [OF B(1,2) i table_okD(1,2) [OF ok that(1,2)] that(3)] paging_okD(3) [OF ok that(1) q(1) that(2)] b that(2)
    by (auto simp: mt)
  have tab: "table_at (mem t) pt r = table_at (mem s) pt r" if "r \<in> paths" for r
  proof (rule table_at_cong [where P = "\<lambda>r. r \<in> paths"])
    show "r @ [j] \<in> paths \<Longrightarrow> r \<in> paths" for r j by (auto dest: paths_snoc)
    show "pte (mem t) a j = pte (mem s) a j" if "r @ [j] \<in> paths" "table_at (mem s) pt r = Some a" for r j a
      using pt [of r a j] paths_snoc [OF that(1)] that(2) q(2) by auto
  qed fact
  have keep: "mem t x = mem s x" if "x \<in> bm_region s" for x
  proof -
    have "frame_of x \<noteq> frame_of b" using frame_notin_image [OF B(5), of x] that by metis
    then have "x \<notin> foot (\<lambda>a. a) (b + of_nat (8 * i)) 8"
      using foot_entry [OF B(1,2) i] by blast
    then show ?thesis by (simp add: mt st64_other)
  qed
  note P = pmm_ok_store [OF paging_okD(1) [OF ok] same keep]
  have "table_ok t a" if "table_ok s a" for a
    using that eq P(2) [of "frame_of a"] by (simp add: table_ok_def)
  moreover have "pmm_ok t" by (rule P(1))
  moreover have "small_pages (mem t) pt"
  proof (rule small_pages_cong [OF _ paging_okD(5) [OF ok]], rule disjI1)
    fix r j a
    assume r: "r @ [j] \<in> paths" "table_at (mem t) pt r = Some a"
    note R = paths_snoc [OF r(1)]
    have "r \<noteq> q" using R q(2) by auto
    then have "table_at (mem s) pt r = Some a" "pte (mem t) a j = pte (mem s) a j"
      using tab [of r] pt [of r a j] R r(2) by auto
    then show "\<exists>r'. r' @ [j] \<in> paths \<and> (\<exists>a'. table_at (mem s) pt r' = Some a' \<and> pte (mem t) a j = pte (mem s) a' j)"
      using r(1) by blast
  qed
  ultimately show "paging_ok t pt"
    using ok unfolding paging_ok_def by (simp add: tab eq)
  show "leaf_at (mem t) pt r j = (if r = q \<and> j = i then Some e else leaf_at (mem s) pt r j)"
    if "r \<in> paths" "length r = 3" "j < 512" for r j
    using tab [OF that(1)] pt [OF that(1) _ that(3)] b e by (auto simp: leaf_at_def split: option.splits)
  have "mem t x = mem s x" if x: "foreign s pt x" for x
  proof -
    have "frame_of x \<noteq> frame_of b" using x q(1) b by (auto simp: foreign_def)
    then have "x \<notin> foot (\<lambda>a. a) (b + of_nat (8 * i)) 8"
      using foot_entry [OF B(1,2) i] by blast
    then show ?thesis by (simp add: mt st64_other)
  qed
  moreover have "foreign t pt x" if "foreign s pt x" for x
    using that P(2) by (simp add: foreign_def tab eq)
  ultimately show "keeps s pt t"
    using same_but_mem_io [OF same] by (simp add: keeps_def)
  show "free_frames t = free_frames s"
    unfolding free_frames_def by (rule arg_cong [where f = card]) (use P(2) eq in auto)
qed

section \<open>Mapping a block\<close>

lemma getidx_mask: "0 < level \<Longrightarrow> getidx (virt AND NOT PAG_4K_FLAGS) level = getidx virt level"
proof -
  have "drop_bit (12 + n) (virt AND NOT PAG_4K_FLAGS) = drop_bit (12 + n) virt" for n
  proof (rule bit_word_eqI)
    fix k
    assume "k < LENGTH(64)"
    have m: "PAG_4K_FLAGS = mask 10" by (simp add: PAG_4K_FLAGS_def mask_eq_exp_minus_1)
    show "bit (drop_bit (12 + n) (virt AND NOT PAG_4K_FLAGS)) k = bit (drop_bit (12 + n) virt) k"
      unfolding m by (auto simp: bit_drop_bit_eq bit_and_iff bit_not_iff bit_mask_iff dest: bit_imp_le_length)
  qed
  then show ?thesis by (simp add: getidx_def)
qed

lemma getidx_bound: "unat (getidx virt level) < 512"
proof -
  have "(0x1ff :: u64) = mask 9" by (simp add: mask_eq_exp_minus_1)
  then have "getidx virt level = take_bit 9 (drop_bit (12 + (level - 1) * 9) virt)"
    by (simp only: getidx_def take_bit_eq_mask)
  then show ?thesis
    using take_bit_nat_less_exp [of 9 "unat (drop_bit (12 + (level - 1) * 9) virt)"]
    by (simp only: unsigned_take_bit_eq) simp
qed

lemma vidx_paths: "take 3 (vidx v) \<in> paths" "vidx v = take 3 (vidx v) @ [unat (getidx v 1)]"
  "length (take 3 (vidx v)) = 3"
  by (simp_all add: vidx_def paths_def getidx_bound)

text \<open>
  Changes that leave the bitmap and the tables alone, or only take frames, do not change the
  translation.
\<close>

lemma paging_ok_cong:
  assumes ok: "paging_ok s pt" and io: "same_but_io s t" and pm: "pmm_ok t"
    and mono: "\<And>k. k < nframes s \<Longrightarrow> used s k \<Longrightarrow> used t k"
    and tabs: "\<And>q a x. q \<in> paths \<Longrightarrow> table_at (mem s) pt q = Some a \<Longrightarrow> frame_of x = frame_of a \<Longrightarrow> mem t x = mem s x"
  shows "q \<in> paths \<Longrightarrow> table_at (mem t) pt q = table_at (mem s) pt q" (is "_ \<Longrightarrow> ?tab q")
    and "paging_ok t pt"
    and "q \<in> paths \<Longrightarrow> j < 512 \<Longrightarrow> leaf_at (mem t) pt q j = leaf_at (mem s) pt q j"
proof -
  have e: "pte (mem t) b j = pte (mem s) b j"
    if "q \<in> paths" "table_at (mem s) pt q = Some b" "j < 512" for q b j
    using pte_cong [OF table_okD(1,2) [OF ok that(1,2)] that(3)] tabs [OF that(1,2)] by blast
  show tab: "?tab q" if "q \<in> paths" for q
  proof (rule table_at_cong [where P = "\<lambda>q. q \<in> paths"])
    show "q @ [j] \<in> paths \<Longrightarrow> q \<in> paths" for q j by (auto dest: paths_snoc)
    show "pte (mem t) b j = pte (mem s) b j" if "q @ [j] \<in> paths" "table_at (mem s) pt q = Some b" for q j b
      using e [of q b j] paths_snoc [OF that(1)] that(2) by auto
  qed fact
  note eq = same_but_io_machine [OF io] same_but_io_pmm [OF io]
  have "table_ok t a" if "table_ok s a" for a
    using that eq mono [of "frame_of a"] by (simp add: table_ok_def)
  moreover have "small_pages (mem t) pt"
    by (rule small_pages_cong [OF _ paging_okD(5) [OF ok]]) (use tab e paths_snoc in metis)
  ultimately show "paging_ok t pt"
    using ok pm unfolding paging_ok_def by (simp add: tab eq)
  show "leaf_at (mem t) pt q j = leaf_at (mem s) pt q j" if "q \<in> paths" "j < 512"
    using tab [OF that(1)] e [OF that(1) _ that(2)] by (auto simp: leaf_at_def split: option.splits)
qed

text \<open>The translation is the leaf at the end of the path.\<close>

lemma translate_leaf:
  assumes "paging_ok s pt"
  shows "translate (mem s) pt v = leaf_at (mem s) pt (take 3 (vidx v)) (unat (getidx v 1))"
  unfolding translate_def
  by (subst vidx_paths(2)) (rule cpu_walk_leaf [OF assms vidx_paths(1) getidx_bound])

text \<open>Writing where nothing of the tables or the pool is.\<close>

lemma foreign_write:
  assumes ok: "paging_ok s pt" and io: "same_but_io s t"
    and w: "\<And>x. mem t x \<noteq> mem s x \<Longrightarrow> foreign s pt x"
  shows "paging_ok t pt" "translate (mem t) pt v = translate (mem s) pt v" "foreign t pt = foreign s pt"
    "free_frames t = free_frames s"
proof -
  note eq = same_but_io_machine [OF io] same_but_io_pmm [OF io]
  have bm: "mem t x = mem s x" if "x \<in> bm_region s" for x
    using w [of x] that by (auto simp: foreign_def)
  have u: "used t k = used s k" if "k < nframes s" for k
    by (rule used_io [OF io _ that]) (rule bm)
  have pm: "pmm_ok t"
    using paging_okD(1) [OF ok] u unfolding pmm_ok_def by (auto simp: eq)
  have tabs: "mem t x = mem s x" if "q \<in> paths" "table_at (mem s) pt q = Some a" "frame_of x = frame_of a" for q a x
    using w [of x] that by (auto simp: foreign_def)
  have mono: "used t k" if "k < nframes s" "used s k" for k using u that by simp
  note P = paging_ok_cong [of s pt t, OF ok io pm]
  show ok': "paging_ok t pt" by (rule P(2)) (fact mono, rule tabs)
  show "translate (mem t) pt v = translate (mem s) pt v"
    unfolding translate_leaf [OF ok'] translate_leaf [OF ok]
    by (rule P(3)) (fact mono, rule tabs, assumption+, rule vidx_paths(1), rule getidx_bound)
  have tab: "table_at (mem t) pt q = table_at (mem s) pt q" if "q \<in> paths" for q
    by (rule P(1)) (fact mono, rule tabs, assumption+, rule that)
  show "foreign t pt = foreign s pt"
    by (rule ext) (auto simp: foreign_def tab eq u)
  show "free_frames t = free_frames s"
    unfolding free_frames_def by (rule arg_cong [where f = card]) (use u eq in auto)
qed

text \<open>Taking a frame.\<close>

lemma alloc_frame:
  assumes ok: "paging_ok s pt" and c: "pmalloc 1 s = (f, t)" and free: "0 < free_frames s"
  shows "paging_ok t pt" "keeps s pt t" "translate (mem t) pt v = translate (mem s) pt v"
    "f = of_nat (4096 * frame_of f)" "frame_of f < nframes s" "free_frames s = Suc (free_frames t)"
    "frame_of x = frame_of f \<Longrightarrow> foreign t pt x" "frame_of x = frame_of f \<Longrightarrow> mem t x = 0"
    "frame_of x = frame_of f \<Longrightarrow> \<not> foreign s pt x"
proof -
  note pok = paging_okD(1) [OF ok]
  have same: "same_but_mem s t" using pmalloc_same [of s 1] c by simp
  note io = same_but_mem_io [OF same]
  note eq = same_but_io_machine [OF io] same_but_io_pmm [OF io]
  note f0 = free_frames_alloc(1) [OF pok c free]
  note F = pm.alloc_some [OF pok c f0]
  show "f = of_nat (4096 * frame_of f)" "frame_of f < nframes s" using F by auto
  show "free_frames s = Suc (free_frames t)" by (rule free_frames_alloc(2) [OF pok c free])
  have u: "used t k \<longleftrightarrow> used s k \<or> k = frame_of f" if "k < nframes s" for k
    using pm.alloc_in_use [OF pok c that] f0 by simp
  have mono: "used t k" if "k < nframes s" "used s k" for k using u that by simp
  have tabs: "mem t x = mem s x" if "q \<in> paths" "table_at (mem s) pt q = Some a" "frame_of x = frame_of a" for q a x
    using pm.alloc_keeps_used [OF pok c, of x] frame_notin_image [OF table_okD(5) [OF ok that(1,2)] that(3)]
      table_okD(4) [OF ok that(1,2)] that(3) by auto
  note P' = paging_ok_cong [of s pt t, OF ok io pm.alloc_ok [OF pok c]]
  have tab: "table_at (mem t) pt q = table_at (mem s) pt q" if "q \<in> paths" for q
    by (rule P'(1)) (fact mono, rule tabs, assumption+, rule that)
  show ok': "paging_ok t pt" by (rule P'(2)) (fact mono, rule tabs)
  show "translate (mem t) pt v = translate (mem s) pt v"
    unfolding translate_leaf [OF ok'] translate_leaf [OF ok]
    by (rule P'(3)) (fact mono, rule tabs, assumption+, rule vidx_paths(1), rule getidx_bound)
  have old: "table_at (mem t) pt q = Some a \<Longrightarrow> used s (frame_of a)" if "q \<in> paths" for q a
    using tab [OF that] table_okD(4) [OF ok that] by simp
  show "keeps s pt t"
    using io tab pm.alloc_keeps_used [OF pok c] mono by (auto simp: keeps_def foreign_def eq)
  show "mem t x = 0" if "frame_of x = frame_of f" by (rule pm.alloc_zero [OF pok c f0 that])
  show "foreign t pt x" if x: "frame_of x = frame_of f"
    using pm.alloc_fresh_not_own [OF pok c f0 x] u [of "frame_of f"] F old by (auto simp: foreign_def eq x)
  show "\<not> foreign s pt x" if "frame_of x = frame_of f"
    using F that by (simp add: foreign_def)
qed

lemma map_block_spec:
  fixes virt phys flags :: u64
  assumes ok: "paging_ok s pt" and free: "3 \<le> free_frames s"
  defines "t \<equiv> map_block pt virt phys flags s"
  shows "paging_ok t pt"
    and "translate (mem t) pt v =
      (if vidx v = vidx virt then Some ((phys AND NOT PAG_4K_FLAGS) OR flags OR PAG_PRESENT)
       else translate (mem s) pt v)"
    and "keeps s pt t" and "free_frames s \<le> free_frames t + 3"
proof -
  define i where "i l = unat (getidx virt l)" for l
  have gi: "getidx (virt AND NOT PAG_4K_FLAGS) l = of_nat (i l)" if "0 < l" for l
    using that by (simp add: i_def getidx_mask)
  have ib: "i l < 512" for l by (simp add: i_def getidx_bound)
  let ?e = "(phys AND NOT PAG_4K_FLAGS) OR flags OR PAG_PRESENT"
  have P: "[] @ [i 4] \<in> paths" "[i 4] @ [i 3] \<in> paths" "[i 4, i 3] @ [i 2] \<in> paths"
    using ib by (simp_all add: paths_def)
  obtain b3 s3 where g3: "get_alloc_next (pt + hhdm s) (of_nat (i 4)) s = (b3 + hhdm s3, s3)"
    and t3: "table_at (mem s3) pt [i 4] = Some b3" and ok3: "paging_ok s3 pt" and k3: "keeps s pt s3"
    and f3: "free_frames s \<le> Suc (free_frames s3)"
    and l3: "\<And>q j. q \<in> paths \<Longrightarrow> length q = 3 \<Longrightarrow> j < 512 \<Longrightarrow> leaf_at (mem s3) pt q j = leaf_at (mem s) pt q j"
    by (rule get_alloc_next_step [OF ok P(1), of pt, unfolded append.simps]) (use free in \<open>simp, linarith, blast\<close>)
  obtain b2 s2 where g2: "get_alloc_next (b3 + hhdm s3) (of_nat (i 3)) s3 = (b2 + hhdm s2, s2)"
    and t2: "table_at (mem s2) pt [i 4, i 3] = Some b2" and ok2: "paging_ok s2 pt" and k2: "keeps s3 pt s2"
    and f2: "free_frames s3 \<le> Suc (free_frames s2)"
    and l2: "\<And>q j. q \<in> paths \<Longrightarrow> length q = 3 \<Longrightarrow> j < 512 \<Longrightarrow> leaf_at (mem s2) pt q j = leaf_at (mem s3) pt q j"
    by (rule get_alloc_next_step [OF ok3 P(2), of b3, unfolded append.simps, OF t3]) (use f3 free in \<open>linarith, blast\<close>)
  obtain b1 s1 where g1: "get_alloc_next (b2 + hhdm s2) (of_nat (i 2)) s2 = (b1 + hhdm s1, s1)"
    and t1: "table_at (mem s1) pt [i 4, i 3, i 2] = Some b1" and ok1: "paging_ok s1 pt" and k1: "keeps s2 pt s1"
    and f1: "free_frames s2 \<le> Suc (free_frames s1)"
    and l1: "\<And>q j. q \<in> paths \<Longrightarrow> length q = 3 \<Longrightarrow> j < 512 \<Longrightarrow> leaf_at (mem s1) pt q j = leaf_at (mem s2) pt q j"
    by (rule get_alloc_next_step [OF ok2 P(3), of b2, unfolded append.simps, OF t2]) (use f2 f3 free in \<open>linarith, blast\<close>)
  have t: "t = store64 (b1 + hhdm s1 + 8 * of_nat (i 1)) ?e s1"
    unfolding t_def map_block_def Let_def by (simp add: gi PHYS_TO_VIRT_def g3 g2 g1)
  have e: "bit ?e 0" by (simp add: bit_or_iff PAG_PRESENT_def)
  have q: "[i 4, i 3, i 2] \<in> paths" "length [i 4, i 3, i 2] = 3" using P(3) by simp_all
  note L = set_leaf [OF ok1 q t1 ib [of 1] e, folded t]
  show "paging_ok t pt" by (rule L(1))
  show "keeps s pt t"
    using keeps_trans [OF k3 keeps_trans [OF k2 keeps_trans [OF k1 L(3)]]] .
  show "free_frames s \<le> free_frames t + 3" using f1 f2 f3 L(4) by simp
  show "translate (mem t) pt v = (if vidx v = vidx virt then Some ?e else translate (mem s) pt v)"
  proof -
    let ?q = "take 3 (vidx v)" and ?j = "unat (getidx v 1)"
    note V = vidx_paths [of v]
    have j: "?j < 512" by (rule getidx_bound)
    have "vidx virt = [i 4, i 3, i 2] @ [i 1]" by (simp add: vidx_def i_def)
    then have "vidx v = vidx virt \<longleftrightarrow> ?q = [i 4, i 3, i 2] \<and> ?j = i 1"
      by (subst V(2)) (simp only: append1_eq_conv)
    moreover have "translate (mem t) pt v = leaf_at (mem t) pt ?q ?j" "translate (mem s) pt v = leaf_at (mem s) pt ?q ?j"
      unfolding translate_def by (subst V(2), rule cpu_walk_leaf [OF _ V(1) j], fact L(1) ok)+
    ultimately show ?thesis
      using L(2) [OF V(1,3) j] l1 [OF V(1,3) j] l2 [OF V(1,3) j] l3 [OF V(1,3) j] by simp
  qed
qed

text \<open>
  C2. \<open>map_block\<close> maps the one page and nothing else: with well-formed tables and three frames to
  spare, the processor's walk of the table \<open>pt\<close> finds, for every address of the page \<open>virt\<close> lies in,
  the entry made of the physical address, the flags and the present bit, and for every other address
  what it found before; the tables stay well formed.
\<close>

theorem map_block_maps:
  fixes virt phys flags :: u64
  assumes ok: "paging_ok s pt" and free: "3 \<le> free_frames s"
  defines "t \<equiv> map_block pt virt phys flags s"
  shows "paging_ok t pt \<and>
    (\<forall>v. translate (mem t) pt v =
      (if vidx v = vidx virt then Some ((phys AND NOT PAG_4K_FLAGS) OR flags OR PAG_PRESENT)
       else translate (mem s) pt v))"
  unfolding t_def using map_block_spec [OF ok free] by blast

section \<open>A new top-level table\<close>

lemma newpml4_same: "same_but_mem s (snd (newpml4 s))"
proof -
  obtain p u where c: "pmalloc 1 s = (p, u)" by fastforce
  then have "same_but_mem s u" using pmalloc_same [of s 1] by simp
  then have "same_but_mem s (memset_st (p + hhdm u) 0 2048 u)"
    using same_but_mem_trans memset_st_same by blast
  then show ?thesis
    using same_but_mem_trans memcpy_st_same by (simp add: newpml4_def c Let_def) blast
qed

lemma frame_at:
  assumes "t = of_nat (4096 * f)" "f < 4294967296" "k < 4096"
  shows "frame_of (t + of_nat k) = f"
  using frame_of_nat(2) [OF assms(2,3)] assms(1) by simp

lemma offset_in_foot:
  assumes "k < N" "i + j \<le> N" "N \<le> 18446744073709551616"
  shows "a + of_nat k \<in> foot (\<lambda>a. a) (a + of_nat i) j \<longleftrightarrow> i \<le> k \<and> k < i + j"
proof
  assume "a + of_nat k \<in> foot (\<lambda>a. a) (a + of_nat i) j"
  then obtain l where l: "l < j" "a + of_nat k = a + of_nat (i + l)"
    by (auto simp: foot_def add.assoc)
  then have "k = i + l"
    using inj_at_eq [of "\<lambda>a. a" a N k "i + l"] inj_at_id [of N a] assms by simp
  then show "i \<le> k \<and> k < i + j" using l by simp
next
  assume "i \<le> k \<and> k < i + j"
  then have "k - i < j" "k = i + (k - i)" by auto
  then show "a + of_nat k \<in> foot (\<lambda>a. a) (a + of_nat i) j"
    using in_foot [of "k - i" j "\<lambda>a. a" "a + of_nat i"] by (metis add.assoc of_nat_add)
qed

text \<open>Copying into a frame through the higher-half window.\<close>

lemma copy_to_frame:
  fixes len :: u64
  assumes win: "\<forall>a. frame_of a < nframes t \<longrightarrow> vtr t (a + hhdm t) = a"
    and f: "f = of_nat (4096 * frame_of f)" "frame_of f < nframes t" "frame_of f < 4294967296"
    and le: "i + unat len \<le> 4096"
    and src: "\<forall>x\<in>foot (vtr t) src (unat len). frame_of x \<noteq> frame_of f"
  defines "u \<equiv> memcpy_st (f + of_nat i + hhdm t) src len t"
  shows "frame_of x \<noteq> frame_of f \<Longrightarrow> mem u x = mem t x"
    and "i \<le> k \<Longrightarrow> k < i + unat len \<Longrightarrow> mem u (f + of_nat k) = load8 t (src + of_nat (k - i))"
    and "k < 4096 \<Longrightarrow> \<not> (i \<le> k \<and> k < i + unat len) \<Longrightarrow> mem u (f + of_nat k) = mem t (f + of_nat k)"
proof -
  let ?bs = "ld_bytes (vtr t) (mem t) src (unat len)"
  have via: "vtr t (f + of_nat i + hhdm t + of_nat j) = f + of_nat i + of_nat j" if "j < unat len" for j
  proof -
    have "f + of_nat i + hhdm t + of_nat j = f + of_nat (i + j) + hhdm t" by simp
    moreover have "frame_of (f + of_nat (i + j)) = frame_of f"
      using frame_at [OF f(1,3), of "i + j"] that le by simp
    ultimately show ?thesis using win f(2) by (simp only:) (simp add: add.assoc)
  qed
  have foot_w: "foot (vtr t) (f + of_nat i + hhdm t) (unat len) = foot (\<lambda>a. a) (f + of_nat i) (unat len)"
    unfolding foot_def using via by (intro image_cong) auto
  have in_f: "frame_of x = frame_of f" if "x \<in> foot (\<lambda>a. a) (f + of_nat i) (unat len)" for x
  proof -
    from that obtain j where "j < unat len" "x = f + of_nat (i + j)"
      by (auto simp: foot_def add.assoc)
    then show ?thesis using frame_at [OF f(1,3), of "i + j"] le by simp
  qed
  have "mem u = st_bytes (vtr t) (mem t) (f + of_nat i + hhdm t) ?bs"
  proof -
    have "foot (vtr t) (f + of_nat i + hhdm t) (unat len) \<inter> foot (vtr t) src (unat len) = {}"
      unfolding foot_w using src in_f by blast
    then show ?thesis by (simp add: u_def memcpy_st_def memcpy_eq)
  qed
  also have "\<dots> = st_bytes (\<lambda>a. a) (mem t) (f + of_nat i) ?bs"
    using via by (intro st_bytes_via) simp
  finally have u: "mem u = st_bytes (\<lambda>a. a) (mem t) (f + of_nat i) ?bs" .
  show "mem u x = mem t x" if "frame_of x \<noteq> frame_of f"
    using that in_f unfolding u by (auto intro!: st_bytes_other)
  show "mem u (f + of_nat k) = mem t (f + of_nat k)" if "k < 4096" "\<not> (i \<le> k \<and> k < i + unat len)"
    unfolding u using offset_in_foot [of k 4096 i "unat len" f] that le by (intro st_bytes_other) simp
  show "mem u (f + of_nat k) = load8 t (src + of_nat (k - i))" if k: "i \<le> k" "k < i + unat len"
  proof -
    have "f + of_nat k = f + of_nat i + of_nat (k - i)" using k by (simp add: of_nat_diff)
    moreover have "inj_at (\<lambda>a. a) (f + of_nat i) (unat len)" using le by (simp add: inj_at_id)
    then have "mem u (f + of_nat i + of_nat (k - i)) = ?bs ! (k - i)"
      unfolding u using st_bytes_at [of "\<lambda>a. a" "f + of_nat i" ?bs "k - i" "mem t"] k by simp
    ultimately show ?thesis using k by (simp add: nth_ld_bytes less_diff_conv2 add.commute)
  qed
qed

text \<open>The first half of a new table is cleared, though the frame is all zero already.\<close>

lemma clear_fresh:
  assumes ok: "pmm_ok s" and window: "\<And>a. frame_of a < nframes s \<Longrightarrow> vtr s (a + hhdm s) = a"
    and al: "pmalloc 1 s = (n, s1)" and n0: "n \<noteq> 0"
  shows "mem (memset_st (n + hhdm s1) 0 2048 s1) p = (if frame_of p = frame_of n then 0 else mem s1 p)"
proof -
  note N = pm.alloc_some [OF ok al n0]
  have n32: "frame_of n < 4294967296" using N pmm_okD(1) [OF ok] by simp
  have "same_but_mem s s1" using pmalloc_same [of s 1] al by simp
  note e = same_but_mem_machine [OF this] same_but_mem_pmm [OF this]
  have fr: "frame_of (n + of_nat k) = frame_of n" if "k < 2048" for k
    using frame_at [of n "frame_of n" k] N n32 that by simp
  then have "vtr s (n + hhdm s + of_nat k) = n + of_nat k" if "k < 2048" for k
    using window [of "n + of_nat k"] N that by (simp add: ac_simps)
  then have "foot (vtr s) (n + hhdm s) 2048 = foot (\<lambda>a. a) n 2048"
    unfolding foot_def by (intro image_cong) auto
  moreover have "frame_of x = frame_of n" if "x \<in> foot (\<lambda>a. a) n 2048" for x
    using that fr by (auto simp: foot_def)
  ultimately show ?thesis
    using pm.alloc_zero [OF ok al n0, of p] e by (auto simp: mem_memset_st)
qed

lemma newpml4_bytes:
  assumes ok: "pmm_ok s" and window: "\<And>a. frame_of a < nframes s \<Longrightarrow> vtr s (a + hhdm s) = a"
    and b: "table_ok s b" and start: "start_pml4 s = b + 2048" and c: "newpml4 s = (n, t)" and free: "0 < free_frames s"
  shows "pmm_ok t" "n = of_nat (4096 * frame_of n)" "frame_of n < nframes s" "\<not> used s (frame_of n)"
    and "\<And>k. k < nframes s \<Longrightarrow> used t k \<longleftrightarrow> used s k \<or> k = frame_of n"
    and "\<And>p. p \<notin> bm_region s \<Longrightarrow> frame_of p \<noteq> frame_of n \<Longrightarrow> mem t p = mem s p"
    and "\<And>k. k < 2048 \<Longrightarrow> mem t (n + of_nat k) = 0"
    and "\<And>k. k < 2048 \<Longrightarrow> mem t (n + of_nat (2048 + k)) = mem s (b + of_nat (2048 + k))"
proof -
  obtain m s1 where c1: "pmalloc 1 s = (m, s1)" by fastforce
  define s2 where "s2 = memset_st (n + hhdm s1) 0 2048 s1"
  have mn: "m = n" and t: "t = memcpy_st (n + of_nat 2048 + hhdm s2) (start_pml4 s2 + hhdm s2) 2048 s2"
    using c by (auto simp: newpml4_def c1 s2_def Let_def)
  have n0: "n \<noteq> 0" using free_frames_alloc(1) [OF ok c1 free] mn by simp
  note al = c1 [unfolded mn]
  note N = pm.alloc_some [OF ok al n0]
  then show N': "n = of_nat (4096 * frame_of n)" "frame_of n < nframes s" "\<not> used s (frame_of n)" by auto
  have n32: "frame_of n < 4294967296" using N'(2) pmm_okD(1) [OF ok] by simp
  have B: "b = of_nat (4096 * frame_of b)" "frame_of b < nframes s" "used s (frame_of b)" "frame_of b \<notin> frame_of ` bm_region s"
    using b by (auto simp: table_ok_def)
  have b32: "frame_of b < 4294967296" using B(2) pmm_okD(1) [OF ok] by simp
  have ne: "frame_of b \<noteq> frame_of n" using B(3) N'(3) by auto
  have same1: "same_but_mem s s1" using pmalloc_same [of s 1] al by simp
  have same2: "same_but_mem s1 s2" by (simp add: s2_def)
  note e1 = same_but_mem_machine [OF same1] same_but_mem_pmm [OF same1] same_but_mem_vmm [OF same1]
  note e2 = same_but_mem_machine [OF same2] same_but_mem_pmm [OF same2] same_but_mem_vmm [OF same2]
  have via: "vtr s (a + of_nat j + hhdm s + of_nat k) = a + of_nat j + of_nat k"
    if "a = of_nat (4096 * f)" "f < 4294967296" "f < nframes s" "j + k < 4096" for a f j k
    using window [of "a + of_nat (j + k)"] frame_at [OF that(1,2,4)] that(3) by (simp add: ac_simps)
  have m2: "mem s2 p = (if frame_of p = frame_of n then 0 else mem s1 p)" for p
    unfolding s2_def by (rule clear_fresh [OF ok window al n0])
  have src: "vtr s2 (start_pml4 s2 + hhdm s2 + of_nat k) = b + of_nat (2048 + k)" if "k < 2048" for k
    using via [OF B(1) b32 B(2), of 2048 k] that e1 e2 start by (simp add: ac_simps)
  have win: "\<forall>a. frame_of a < nframes s2 \<longrightarrow> vtr s2 (a + hhdm s2) = a" and n2: "frame_of n < nframes s2"
    using window N'(2) e1 e2 by simp_all
  have "\<forall>x\<in>foot (vtr s2) (start_pml4 s2 + hhdm s2) (unat (2048 :: u64)). frame_of x \<noteq> frame_of n"
    using src frame_at [OF B(1) b32, of "2048 + k" for k] ne by (auto simp: foot_def)
  note C = copy_to_frame [OF win N'(1) n2 n32 _ this, of 2048, folded t, simplified]
  show keep: "mem t p = mem s p" if "p \<notin> bm_region s" "frame_of p \<noteq> frame_of n" for p
    using that C(1) [of p] m2 [of p] pm.alloc_keeps [OF ok al that(1)] by auto
  show "mem t (n + of_nat k) = 0" if "k < 2048" for k
    using C(3) [of k] m2 frame_at [OF N'(1) n32, of k] that by simp
  show "mem t (n + of_nat (2048 + k)) = mem s (b + of_nat (2048 + k))" if "k < 2048" for k
  proof -
    have "mem t (n + of_nat (2048 + k)) = mem s2 (b + of_nat (2048 + k))"
      using C(2) [of "2048 + k"] src [OF that] that by (simp add: ld8_def)
    also have "\<dots> = mem s (b + of_nat (2048 + k))"
      using m2 ne frame_at [OF B(1) b32, of "2048 + k"] that
        pm.alloc_keeps_used [OF ok al, of "b + of_nat (2048 + k)"] frame_notin_image [OF B(4), of "b + of_nat (2048 + k)"] B(3)
      by simp
    finally show ?thesis .
  qed
  have st: "same_but_mem s1 t" using same_but_mem_trans [OF same2] by (simp add: t)
  have "mem t p = mem s1 p" if "p \<in> bm_region s1" for p
    using pm.alloc_fresh_not_own [OF ok al n0, of p] that e1 C(1) [of p] m2 [of p] by auto
  note W = alloc_then_write [OF ok al n0 st this]
  show "pmm_ok t" using W(1) by simp
  show "used t k \<longleftrightarrow> used s k \<or> k = frame_of n" if "k < nframes s" for k using W(2) [OF _ that] by simp
qed

lemma paths_nil: "[] \<in> paths"
  by (simp add: paths_def)

lemma pte_eqI:
  assumes "\<And>k. k < 8 \<Longrightarrow> m (t + of_nat (8 * i + k)) = m' (t' + of_nat (8 * i + k))"
  shows "pte m t i = pte m' t' i"
  unfolding pte_def ld64_def ld_bytes_def ld8_def
  by (intro arg_cong [where f = le_word] map_cong refl) (use assms in \<open>simp add: add.assoc\<close>)

lemma newpml4_entries:
  assumes ok: "pmm_ok s" and window: "\<And>a. frame_of a < nframes s \<Longrightarrow> vtr s (a + hhdm s) = a"
    and b: "table_ok s b" and start: "start_pml4 s = b + 2048" and c: "newpml4 s = (n, t)" and free: "0 < free_frames s"
    and i: "i < 512"
  shows "pte (mem t) n i = (if i < 256 then 0 else pte (mem s) b i)"
proof (cases "i < 256")
  case True
  have "pte (mem t) n i = pte (\<lambda>_. 0) n i"
  proof (rule pte_eqI)
    show "mem t (n + of_nat (8 * i + k)) = 0" if "k < 8" for k
      using newpml4_bytes(7) [OF assms(1-6), of "8 * i + k"] True that by simp
  qed
  also have "\<dots> = 0" by (simp add: pte_def ld64_def ld_bytes_def ld8_def upt_rec)
  finally show ?thesis using True by simp
next
  case False
  have "pte (mem t) n i = pte (mem s) b i"
  proof (rule pte_eqI)
    show "mem t (n + of_nat (8 * i + k)) = mem s (b + of_nat (8 * i + k))" if "k < 8" for k
    proof -
      have "2048 + (8 * i + k - 2048) = 8 * i + k" "8 * i + k - 2048 < 2048"
        using False i that by auto
      then show ?thesis
        using newpml4_bytes(8) [OF assms(1-6), of "8 * i + k - 2048"] by simp
    qed
  qed
  then show ?thesis using False by simp
qed

text \<open>The tables under a new top-level table: nothing below the kernel half, and there the boot tables.\<close>

lemma newpml4_tables:
  assumes ok: "paging_ok s b" and start: "start_pml4 s = b + 2048" and c: "newpml4 s = (n, t)"
    and free: "0 < free_frames s"
  shows "q \<in> paths \<Longrightarrow> table_at (mem s) b q = Some a \<Longrightarrow> k < 512 \<Longrightarrow> pte (mem t) a k = pte (mem s) a k"
    and "i # q \<in> paths \<Longrightarrow> table_at (mem t) n (i # q) = (if i < 256 then None else table_at (mem s) b (i # q))"
    and "q \<in> paths \<Longrightarrow> table_at (mem s) b q = Some a \<Longrightarrow> frame_of a \<noteq> frame_of n"
    and "q \<in> paths \<Longrightarrow> table_at (mem t) n q = Some a \<Longrightarrow> q = [] \<and> a = n \<or> table_at (mem s) b q = Some a"
proof -
  have root: "table_at (mem s) b [] = Some b" by simp
  then have "table_ok s b"
    using ok paths_nil unfolding paging_ok_def by blast
  note H = paging_okD(1) [OF ok] paging_okD(2) [OF ok] this start c free
  note B = newpml4_bytes [OF H]
  show fresh: "frame_of a \<noteq> frame_of n" if "q \<in> paths" "table_at (mem s) b q = Some a" for q a
    using table_okD(4) [OF ok that] B(4) by metis
  show keep: "pte (mem t) a k = pte (mem s) a k" if "q \<in> paths" "table_at (mem s) b q = Some a" "k < 512" for q a k
  proof (rule pte_cong [OF table_okD(1,2) [OF ok that(1,2)] that(3)])
    fix p
    assume p: "frame_of p = frame_of a"
    then have "frame_of p \<noteq> frame_of n" using fresh [OF that(1,2)] by simp
    then show "mem t p = mem s p"
      using B(6) frame_notin_image [OF table_okD(5) [OF ok that(1,2)] p] by blast
  qed
  have old: "table_at (mem t) b q = table_at (mem s) b q" if "q \<in> paths" for q
  proof (rule table_at_cong [where P = "\<lambda>q. q \<in> paths"])
    show "q @ [j] \<in> paths \<Longrightarrow> q \<in> paths" for q j by (auto dest: paths_snoc)
    show "pte (mem t) d j = pte (mem s) d j" if "q @ [j] \<in> paths" "table_at (mem s) b q = Some d" for q j d
      using keep [of q d j] paths_snoc [OF that(1)] that(2) by auto
  qed fact
  show tab: "table_at (mem t) n (i # q) = (if i < 256 then None else table_at (mem s) b (i # q))"
    if "i # q \<in> paths" for i q
  proof -
    have "i < 512" using that by (simp add: paths_def)
    then have "table_at (mem t) n (i # q) = (if i < 256 then None else table_at (mem t) b (i # q))"
      using newpml4_entries [OF H] keep [OF paths_nil root] by simp
    then show ?thesis by (simp only: old [OF that])
  qed
  show "q \<in> paths \<Longrightarrow> table_at (mem t) n q = Some a \<Longrightarrow> q = [] \<and> a = n \<or> table_at (mem s) b q = Some a" for q a
    using tab by (cases q) (auto split: if_splits)
qed

lemma newpml4_spec:
  assumes ok: "paging_ok s b" and start: "start_pml4 s = b + 2048" and c: "newpml4 s = (n, t)"
    and free: "0 < free_frames s"
  shows "paging_ok t n"
    and "translate (mem t) n v = (if unat (getidx v 4) < 256 then None else translate (mem s) b v)"
    and "foreign s b x \<Longrightarrow> mem t x = mem s x \<and> foreign t n x"
    and "free_frames s = Suc (free_frames t)"
proof -
  have "table_ok s b" using ok paths_nil unfolding paging_ok_def by fastforce
  note H = paging_okD(1) [OF ok] paging_okD(2) [OF ok] this start c free
  note B = newpml4_bytes [OF H]
  have B5: "used t k \<longleftrightarrow> used s k \<or> k = frame_of n" if "k < nframes s" for k
    using B(5) that by blast
  note T = newpml4_tables [OF ok start c free]
  have same: "same_but_mem s t" using newpml4_same [of s] c by simp
  note eq = same_but_mem_machine [OF same] same_but_mem_pmm [OF same]
  have mono: "used t k" if "k < nframes s" "used s k" for k using B5 [OF that(1)] that(2) by simp
  have "frame_of n \<notin> frame_of ` bm_region s"
    using pm.own_in_use [OF H(1), of p for p] B(3,4) by (metis imageE)
  then have "table_ok t n"
    using B(2,3) B5 [OF B(3)] by (simp add: table_ok_def eq)
  moreover have "table_ok t a" if "q \<in> paths" "table_at (mem s) b q = Some a" for q a
    using table_okD [OF ok that] mono by (simp add: table_ok_def eq)
  moreover have "p = q" if "p \<in> paths" "q \<in> paths" "table_at (mem t) n p = Some a" "table_at (mem t) n q = Some a" for p q a
    using T(4) [OF that(1,3)] T(4) [OF that(2,4)] paging_okD(3) [OF ok that(1,2)] T(3) that(1,2) by metis
  moreover have "small_pages (mem t) n"
  proof (rule small_pages_cong [OF _ paging_okD(5) [OF ok]])
    fix p i a
    assume p: "p @ [i] \<in> paths" "table_at (mem t) n p = Some a"
    note Q = paths_snoc [OF p(1)]
    show "(\<exists>p'. p' @ [i] \<in> paths \<and> (\<exists>a'. table_at (mem s) b p' = Some a' \<and> pte (mem t) a i = pte (mem s) a' i)) \<or>
      \<not> bit (pte (mem t) a i) 0 \<or> \<not> bit (pte (mem t) a i) 7"
    proof (cases "table_at (mem s) b p = Some a")
      case True
      then show ?thesis using T(1) [of p a i] Q p(1) by blast
    next
      case False
      then have "p = []" "a = n" using T(4) [OF _ p(2)] Q by auto
      moreover have "pte (mem t) n i = (if i < 256 then 0 else pte (mem s) b i)"
        using newpml4_entries [OF H] Q by blast
      moreover have "table_at (mem s) b [] = Some b" "[] @ [i] \<in> paths" using p(1) \<open>p = []\<close> by simp_all
      ultimately show ?thesis by (cases "i < 256") (simp, metis)
    qed
  qed
  ultimately show ok': "paging_ok t n"
    using B(1) T(4) H(2) unfolding paging_ok_def by (simp add: eq) blast
  have "leaf_at (mem t) n (i # q) j = (if i < 256 then None else leaf_at (mem s) b (i # q) j)"
    if "i # q \<in> paths" "j < 512" for i q j
    unfolding leaf_at_def T(2) [OF that(1)]
    by (cases "table_at (mem s) b (i # q)") (simp_all add: T(1) [OF that(1) _ that(2)] del: table_at.simps)
  from this [of "unat (getidx v 4)" "[unat (getidx v 3), unat (getidx v 2)]" "unat (getidx v 1)"]
  show "translate (mem t) n v = (if unat (getidx v 4) < 256 then None else translate (mem s) b v)"
    unfolding translate_leaf [OF ok'] translate_leaf [OF ok]
    using vidx_paths(1) [of v] getidx_bound [of v 1] by (simp add: vidx_def)
  show "mem t x = mem s x \<and> foreign t n x" if x: "foreign s b x"
  proof
    have ne: "frame_of x \<noteq> frame_of n" using x B(3,4) by (auto simp: foreign_def)
    then show "mem t x = mem s x" using x B(6) [of x] by (simp add: foreign_def)
    have "frame_of x \<noteq> frame_of a" if "q \<in> paths" "table_at (mem t) n q = Some a" for q a
      using T(4) [OF that] x that(1) ne unfolding foreign_def by blast
    then show "foreign t n x"
      using x mono unfolding foreign_def by (simp add: eq)
  qed
  have "{k. k < nframes s \<and> \<not> used s k} = insert (frame_of n) {k. k < nframes t \<and> \<not> used t k}"
    using B(3,4) B5 eq by auto
  then show "free_frames s = Suc (free_frames t)"
    using B(3) B5 [OF B(3)] by (simp add: free_frames_def)
qed

text \<open>
  C10. A new top-level table shares the kernel half and nothing else: addresses whose top-level
  index is below 256 are unmapped in it, and every other address translates as it does in the boot
  tables. The allocator stays well formed.
\<close>

theorem newpml4_shares_kernel_half:
  assumes ok: "paging_ok s b" and start: "start_pml4 s = b + 2048" and c: "newpml4 s = (n, t)"
    and free: "0 < free_frames s"
  shows "pmm_ok t \<and> (\<forall>v. translate (mem t) n v =
    (if unat (getidx v 4) < 256 then None else translate (mem s) b v))"
  using newpml4_spec [OF ok start c free] paging_okD(1) by blast

text \<open>A machine with one empty table at frame 1.\<close>

definition paging_sample :: vmm where
  "paging_sample = pmm.extend (pmm_sample\<lparr>mem := (\<lambda>a. if a = 0x100000 then 3 else 0)\<rparr>) \<lparr>start_pml4 = 0x1800, base_pml4 = 0x1000\<rparr>"

lemma paging_sample_simps [simp]:
  "pmm_map paging_sample = 0x100000" "pmm_map_size paging_sample = 1" "nframes paging_sample = 8"
  "hhdm paging_sample = 0" "xlat paging_sample = (\<lambda>_ a. a)" "start_pml4 paging_sample = 0x1800"
  "mem paging_sample = (\<lambda>a. if a = 0x100000 then 3 else 0)"
  by (simp_all add: paging_sample_def pmm_sample_def nframes_def pmm.defs)

lemma used_paging_sample: "k < 8 \<Longrightarrow> used paging_sample k \<longleftrightarrow> k < 2"
proof -
  have m: "(3 :: u8) = mask 2" by (simp add: mask_eq_exp_minus_1)
  have "bit (3 :: u8) k \<longleftrightarrow> k < 2" if "k < 8"
    unfolding m using that by (auto simp: bit_mask_iff)
  then show "k < 8 \<Longrightarrow> used paging_sample k \<longleftrightarrow> k < 2"
    by (simp add: used_iff_mem)
qed

lemma paging_sample_pte: "i < 512 \<Longrightarrow> pte (mem paging_sample) 0x1000 i = 0"
  by (rule zero_frame_pte [of _ 1]) (auto simp: frame_of_def)

lemma paging_sample_table: "p \<in> paths \<Longrightarrow> table_at (mem paging_sample) 0x1000 p = (if p = [] then Some 0x1000 else None)"
  by (cases p) (auto simp: paging_sample_pte paths_def simp del: paging_sample_simps)

lemma paging_ok_sample: "paging_ok paging_sample 0x1000"
proof -
  have "pmm_ok paging_sample"
    by (simp add: pmm_ok_def inj_at_id foot_Suc frame_of_def used_paging_sample)
  moreover have "table_ok paging_sample 0x1000"
    by (simp add: table_ok_def frame_of_def used_paging_sample foot_Suc)
  moreover have "small_pages (mem paging_sample) 0x1000"
    unfolding small_pages_def
    by (auto simp: paging_sample_table paging_sample_pte dest!: paths_snoc simp del: paging_sample_simps(7) split: if_splits)
  ultimately show ?thesis
    unfolding paging_ok_def by (auto simp: paging_sample_table simp del: paging_sample_simps(7) split: if_splits)
qed

lemma free_frames_sample: "free_frames paging_sample = 6"
proof -
  have "{k. k < nframes paging_sample \<and> \<not> used paging_sample k} = {2..<8}"
    by (auto simp: used_paging_sample)
  then show ?thesis by (simp add: free_frames_def)
qed

theorem newpml4_shares_kernel_half_witness:
  "\<exists>n t. newpml4 paging_sample = (n, t) \<and> translate (mem t) n 0x400000 = None"
proof -
  obtain n t where c: "newpml4 paging_sample = (n, t)" by fastforce
  have "unat (getidx 0x400000 4) = 0" by (simp add: getidx_def)
  then show ?thesis
    using newpml4_shares_kernel_half [OF paging_ok_sample _ c] c by (simp add: free_frames_sample)
qed

theorem map_block_maps_witness:
  "translate (mem (map_block 0x1000 0x400000 0x5000 2 paging_sample)) 0x1000 0x400000 = Some 0x5003"
  using map_block_maps [OF paging_ok_sample, of "0x400000" "0x5000" 2]
  by (simp add: free_frames_sample PAG_4K_FLAGS_def PAG_PRESENT_def)

end
