(* ===== verification/Tasks.thy ===== *)
theory Tasks
  imports Vmm "HOL-Library.Signed_Division"
begin

text \<open>
  \<open>tasks/tasks.c\<close>: the timer, the round-robin scheduler and the ELF loader. The record adds the
  component's globals; \<open>processes\<close> and \<open>processesinfo\<close> are the C arrays of 100 entries, and an access
  past their end is \<^const>\<open>Undef\<close>. \<open>processnum\<close> is in \<open>Panic\<close>.
\<close>

record ProcessInfo =
  pi_cr3 :: u64

record tasks = vmm +
  tticks :: u64
  ticks :: u64
  process :: u32
  tempdebug :: u64
  processes :: "u64 list"
  processesinfo :: "ProcessInfo list"

lemma same_but_mem_tasks:
  "same_but_mem s t \<Longrightarrow> tticks t = tticks s \<and> ticks t = ticks s \<and> process t = process s \<and>
   tempdebug t = tempdebug s \<and> processes t = processes s \<and> processesinfo t = processesinfo s"
  by (auto simp: same_but_mem_def)

lemma same_but_io_tasks:
  "same_but_io s t \<Longrightarrow> tticks t = tticks s \<and> ticks t = ticks s \<and> process t = process s \<and>
   tempdebug t = tempdebug s \<and> processes t = processes s \<and> processesinfo t = processesinfo s"
  by (auto simp: same_but_io_def)

section \<open>The timer chip\<close>

text \<open>C division truncates; \<open>divisor\<close> is an \<open>int\<close>, each port write keeps its low byte.\<close>

definition settimer :: "i32 \<Rightarrow> 'a machine_scheme \<Rightarrow> (unit, 'a machine_scheme) outcome" where
  "settimer hz s =
     (if hz = 0 then Undef
      else let divisor = 1193180 sdiv sint hz
           in Ret () (write_port 0x40 (word_of_int (divisor div 256))
                (write_port 0x40 (word_of_int (divisor mod 256)) (write_port 0x43 0x36 s))))"

section \<open>The scheduler\<close>

text \<open>A number printed in base 16 through a local buffer: \<open>uitoa(n, buf, 16); prints(0, y, buf, att, 0);\<close>\<close>

definition print_hex :: "u64 \<Rightarrow> i32 \<Rightarrow> u64 \<Rightarrow> u32 \<Rightarrow> 'a vga_scheme \<Rightarrow> 'a vga_scheme" where
  "print_hex buf y n att s = (let s1 = uitoa_st n buf 16 s in prints 0 y (c_text s1 buf 32) att 0 s1)"

text \<open>\<open>clock_handler\<close> counts and shows the ticks first, then chooses the process.\<close>

definition clock_count :: "'a tasks_scheme \<Rightarrow> 'a tasks_scheme" where
  "clock_count s =
     (let s1 = (if processnum s = 1 then s\<lparr>tempdebug := tempdebug s + 1\<rparr> else s);
          s2 = print_hex (locals s1 ''clock_handler.buf'') 15 (tempdebug s1) 0xff0000 s1;
          s3 = s2\<lparr>tticks := tticks s2 + 1\<rparr>
      in if tticks s3 mod 10 = 0 then s3\<lparr>ticks := ticks s3 + 1\<rparr> else s3)"

definition clock_handler :: "u64 \<Rightarrow> 'a tasks_scheme \<Rightarrow> (u64, 'a tasks_scheme) outcome" where
  "clock_handler stack s =
     (let s1 = clock_count s
      in if processnum s1 = 0 then Ret stack s1
         else let s2 = s1\<lparr>process := if processnum s1 = process s1 then 1 else process s1 + 1\<rparr>;
                  p = unat (process s2)
              in if p < length (processesinfo s2)
                 then bind_outcome (write_cr3 (pi_cr3 (processesinfo s2 ! p)) s2) (\<lambda>_ s3.
                        if p < length (processes s3) then Ret (processes s3 ! p) s3 else Undef)
                 else Undef)"

section \<open>The ELF loader\<close>

datatype LOADELF_RESULT =
  SUCCESS | WRONG_MAGIC | WRONG_SIZE | WRONG_ARCH | WRONG_BITTAGE | WRONG_ENDIANNESS | NOT_EXECUTABLE

text \<open>The enumerator with a given value.\<close>

definition loadelf_result :: "nat \<Rightarrow> LOADELF_RESULT" where
  "loadelf_result n =
     [SUCCESS, WRONG_MAGIC, WRONG_SIZE, WRONG_ARCH, WRONG_BITTAGE, WRONG_ENDIANNESS, NOT_EXECUTABLE] ! n"

text \<open>
  The header checks, as the value returned (0 when all pass). Field offsets of \<open>ELFHeader\<close>: \<open>magic\<close> 0,
  \<open>bits\<close> 4, \<open>endianness\<close> 5, \<open>type\<close> 16, \<open>inset\<close> 18, \<open>entrypos\<close> 24, \<open>proghpos\<close> 32, \<open>proghentrynum\<close> 56.
\<close>

definition elf_check :: "'a machine_scheme \<Rightarrow> u64 \<Rightarrow> u32 \<Rightarrow> nat" where
  "elf_check s data bytes =
     (if bytes \<le> 120 then 1
      else if load8 s data \<noteq> 0x7F then 2
      else if load16 s (data + 18) \<noteq> 0x3E then 3
      else if load8 s (data + 4) \<noteq> 2 then 4
      else if load8 s (data + 5) \<noteq> 1 then 5
      else if load16 s (data + 16) \<noteq> 2 then 6
      else 0)"

text \<open>The \<open>i\<close>-th \<open>ELFPEntry\<close> of the table at \<open>pt\<close>, 56 bytes each.\<close>

definition ph_entry :: "u64 \<Rightarrow> nat \<Rightarrow> u64" where
  "ph_entry pt i = pt + of_nat (56 * i)"

definition ph_type :: "'a machine_scheme \<Rightarrow> u64 \<Rightarrow> nat \<Rightarrow> u32" where
  "ph_type s pt i = load32 s (ph_entry pt i)"

definition ph_offset :: "'a machine_scheme \<Rightarrow> u64 \<Rightarrow> nat \<Rightarrow> u64" where
  "ph_offset s pt i = load64 s (ph_entry pt i + 8)"

definition ph_vaddr :: "'a machine_scheme \<Rightarrow> u64 \<Rightarrow> nat \<Rightarrow> u64" where
  "ph_vaddr s pt i = load64 s (ph_entry pt i + 16)"

definition ph_filesz :: "'a machine_scheme \<Rightarrow> u64 \<Rightarrow> nat \<Rightarrow> u64" where
  "ph_filesz s pt i = load64 s (ph_entry pt i + 32)"

definition ph_memsz :: "'a machine_scheme \<Rightarrow> u64 \<Rightarrow> nat \<Rightarrow> u64" where
  "ph_memsz s pt i = load64 s (ph_entry pt i + 40)"

text \<open>One page of the stack. The virtual address is 32-bit arithmetic.\<close>

definition elf_stack_page :: "u64 \<Rightarrow> u64 \<Rightarrow> nat \<Rightarrow> 'a pmm_scheme \<Rightarrow> 'a pmm_scheme" where
  "elf_stack_page cr3v stackregion i s =
     (let virt = ucast (0x7FFF000 - 4096 * of_nat i :: u32);
          phys = stackregion + ucast (of_nat i * 4096 :: u32);
          buf = locals s ''run_elf.buf'';
          s1 = print_hex buf 8 virt 0xffff s;
          s2 = print_hex buf 9 phys 0xffff s1
      in map_block cr3v virt phys 7 s2)"

text \<open>One program header. The computed \<open>flags\<close> are overwritten with 3 before use.\<close>

definition elf_segment :: "u64 \<Rightarrow> u64 \<Rightarrow> u64 \<Rightarrow> nat \<Rightarrow> 'a pmm_scheme \<Rightarrow> 'a pmm_scheme" where
  "elf_segment cr3v data pt i s =
     (if ph_type s pt i = 1 \<and> ph_memsz s pt i \<noteq> 0
      then let blocksneeded = ALIGNUP (ph_memsz s pt i);
               (physicalarea, s1) = pmalloc (ucast blocksneeded) s;
               s2 = fold (\<lambda>j s. map_block cr3v (ph_vaddr s pt i + push_bit 12 (of_nat j))
                                  (physicalarea + push_bit 12 (of_nat j)) 3 s)
                      [0..<unat blocksneeded] s1;
               s3 = memcpy_st (PHYS_TO_VIRT s2 physicalarea) (data + ph_offset s2 pt i) (ph_filesz s2 pt i) s2
           in memset_st (physicalarea + ph_filesz s3 pt i) 0 (ph_memsz s3 pt i - ph_filesz s3 pt i) s3
      else s)"

text \<open>The loop over the headers reads their number from memory each time round.\<close>

function elf_segments :: "u64 \<Rightarrow> u64 \<Rightarrow> u64 \<Rightarrow> nat \<Rightarrow> 'a pmm_scheme \<Rightarrow> 'a pmm_scheme" where
  "elf_segments cr3v data pt i s =
     (if i < unat (load16 s (data + 56))
      then elf_segments cr3v data pt (Suc i) (elf_segment cr3v data pt i s) else s)"
  by pat_completeness auto
termination
proof (relation "measure (\<lambda>(cr3v, data, pt, i, s). 65536 - i)")
  show "((cr3v, data, pt, Suc i, elf_segment cr3v data pt i s), cr3v, data, pt, i, s)
      \<in> measure (\<lambda>(cr3v, data, pt, i, s). 65536 - i)"
    if "i < unat (load16 s (data + 56))" for cr3v data pt i and s :: "'a pmm_scheme"
    using that unat_lt_u16 [of "load16 s (data + 56)"] by simp
qed simp

declare elf_segments.simps [simp del]

text \<open>
  The local \<open>ProcessState state\<close> lies at \<open>locals ''run_elf.state''\<close>: \<open>rbp\<close> at offset 64, \<open>rip\<close> at 136,
  \<open>rsp\<close> at 160, 176 bytes in all; the other fields keep what that stack memory held. This part of
  \<open>run_elf\<close> yields the new table, the stack and the state.
\<close>

definition elf_build :: "u64 \<Rightarrow> u32 \<Rightarrow> 'a vmm_scheme \<Rightarrow> u64 \<times> u64 \<times> 'a vmm_scheme" where
  "elf_build data stackbytes s =
     (let pt = data + load64 s (data + 32);
          state = locals s ''run_elf.state'';
          buf = locals s ''run_elf.buf'';
          (cr3v, s1) = newpml4 s;
          s2 = print_hex (locals s ''run_elf.buf2'') 15 cr3v 0xff00ff s1;
          s3 = store64 (state + 136) (load64 s2 (data + 24)) s2;
          (stackregion, s4) = pmalloc (stackbytes div 4096) s3;
          s5 = store64 (state + 64) 0x8000000 s4;
          s6 = store64 (state + 160) (0x8000000 - 176) s5;
          s7 = print_hex buf 7 (load64 s6 (state + 160)) 0xffff s6;
          s8 = fold (elf_stack_page cr3v stackregion) [0..<unat (stackbytes div 4096)] s7;
          s9 = print_hex buf 4 (ph_vaddr s8 pt 0) 0xff0fff s8;
          s10 = elf_segments cr3v data pt 0 s9;
          s11 = memcpy_st (stackregion + ucast stackbytes - 176 + hhdm s10) state 176 s10
      in (cr3v, stackregion, s11))"

text \<open>The new process is registered under the next number.\<close>

definition run_elf :: "u64 \<Rightarrow> u32 \<Rightarrow> u32 \<Rightarrow> 'a tasks_scheme \<Rightarrow> (LOADELF_RESULT, 'a tasks_scheme) outcome" where
  "run_elf data bytes stackbytes s =
     (if elf_check s data bytes \<noteq> 0 then Ret (loadelf_result (elf_check s data bytes)) s
      else
        let (cr3v, stackregion, t) = elf_build data stackbytes s;
            p = unat (processnum t + 1)
        in if p < length (processes t) \<and> p < length (processesinfo t)
           then Ret (loadelf_result 0)
             (t\<lparr>processes := (processes t)[p := load64 t (locals t ''run_elf.state'' + 160)],
                processesinfo := (processesinfo t)[p := \<lparr>pi_cr3 = cr3v\<rparr>],
                processnum := processnum t + 1\<rparr>)
           else Undef)"

section \<open>What the timer is set to\<close>

lemma u8_of_byte: "0 \<le> k \<Longrightarrow> k < 256 \<Longrightarrow> unat (word_of_int k :: u8) = nat k"
  by (simp add: unsigned_of_int take_bit_int_eq_self)

text \<open>
  C28. \<open>settimer\<close> programs channel 0 of the timer chip with the low 16 bits of the divisor, low byte
  first: for a positive frequency the bytes after the mode byte \<open>0x36\<close> are those of
  \<open>1193180 div hz mod 65536\<close>. So a frequency below 19 is not the one that is set.
\<close>

theorem settimer_divisor:
  assumes "0 < sint hz"
  shows "\<exists>lo hi. settimer hz s = Ret () (s\<lparr>outs := outs s @ [(0x43, 0x36), (0x40, lo), (0x40, hi)]\<rparr>) \<and>
    int (unat lo + 256 * unat hi) = 1193180 div sint hz mod 65536"
proof -
  let ?d = "1193180 div sint hz"
  have d: "1193180 sdiv sint hz = ?d" "0 \<le> ?d"
    using assms by (simp_all add: signed_divide_int_def pos_imp_zdiv_nonneg_iff)
  have hi: "(word_of_int (?d div 256) :: u8) = word_of_int (?d div 256 mod 256)"
    by (simp add: word_of_int_eq_iff take_bit_eq_mod)
  have "int (unat (word_of_int (?d mod 256) :: u8) + 256 * unat (word_of_int (?d div 256) :: u8)) =
      ?d mod 256 + 256 * (?d div 256 mod 256)"
    unfolding hi using d(2) by (simp add: u8_of_byte)
  also have "\<dots> = ?d mod 65536"
    by (simp add: zmod_zmult2_eq [of 256 ?d 256, simplified])
  finally have eq: "int (unat (word_of_int (?d mod 256) :: u8) + 256 * unat (word_of_int (?d div 256) :: u8)) = ?d mod 65536" .
  have "hz \<noteq> 0" using assms by auto
  then show ?thesis
    by (intro exI [of _ "word_of_int (?d mod 256)"] exI [of _ "word_of_int (?d div 256)"] conjI eq)
      (simp add: settimer_def d Let_def write_port_def)
qed

theorem settimer_divisor_witness:
  "\<exists>lo hi. settimer 10000 vga_sample = Ret () (vga_sample\<lparr>outs := outs vga_sample @ [(0x43, 0x36), (0x40, lo), (0x40, hi)]\<rparr>) \<and>
    int (unat lo + 256 * unat hi) = 1193180 div sint (10000 :: i32) mod 65536"
  by (rule settimer_divisor) simp

section \<open>Round robin\<close>

text \<open>
  What the scheduler relies on: the arrays have their 100 entries, the current process is one of the
  registered ones (0 before the first switch), and every registered table address is one \<open>write_cr3\<close>
  accepts.
\<close>

definition sched_ok :: "'a tasks_scheme \<Rightarrow> bool" where
  "sched_ok s \<longleftrightarrow> length (processes s) = 100 \<and> length (processesinfo s) = 100 \<and>
     unat (processnum s) < 100 \<and> process s \<le> processnum s \<and>
     (\<forall>p. 1 \<le> p \<and> p \<le> unat (processnum s) \<longrightarrow> ALIGN (pi_cr3 (processesinfo s ! p)) = pi_cr3 (processesinfo s ! p))"

lemma print_hex_io: "same_but_io s (print_hex buf y n att s)"
  unfolding print_hex_def Let_def by (rule same_but_io_trans [OF same_but_mem_io [OF uitoa_st_same] prints_same])

lemma print_hex_fields:
  fixes s :: "'a tasks_scheme"
  shows "processnum (print_hex buf y n att s) = processnum s" "process (print_hex buf y n att s) = process s"
    "processes (print_hex buf y n att s) = processes s" "processesinfo (print_hex buf y n att s) = processesinfo s"
    "tticks (print_hex buf y n att s) = tticks s" "ticks (print_hex buf y n att s) = ticks s"
  using same_but_io_tasks [OF print_hex_io [of s buf y n att]] same_but_io_sys [OF print_hex_io [of s buf y n att]]
  by simp_all

definition next_process :: "'a tasks_scheme \<Rightarrow> nat" where
  "next_process s = (if processnum s = process s then 1 else unat (process s) + 1)"

lemma next_process_bounds:
  assumes "sched_ok s" "processnum s \<noteq> 0"
  shows "1 \<le> next_process s" "next_process s \<le> unat (processnum s)"
proof -
  have le: "unat (process s) \<le> unat (processnum s)"
    using assms(1) by (simp add: sched_ok_def word_le_nat_alt)
  have "0 < unat (processnum s)" using assms(2) by (simp add: unat_gt_0)
  moreover have "unat (process s) \<noteq> unat (processnum s)" if "processnum s \<noteq> process s"
    using that by (metis word_unat_eq_iff)
  ultimately show "1 \<le> next_process s" "next_process s \<le> unat (processnum s)"
    using le by (auto simp: next_process_def)
qed

lemma clock_count_fields:
  "processnum (clock_count s) = processnum s" "process (clock_count s) = process s"
  "processes (clock_count s) = processes s" "processesinfo (clock_count s) = processesinfo s"
  "tticks (clock_count s) = tticks s + 1"
  "ticks (clock_count s) = (if (tticks s + 1) mod 10 = 0 then ticks s + 1 else ticks s)"
  by (simp_all add: clock_count_def Let_def print_hex_fields)

lemma clock_handler_idle:
  assumes "processnum s = 0"
  shows "clock_handler stack s = Ret stack (clock_count s)"
  using assms by (simp add: clock_handler_def clock_count_fields Let_def)

lemma clock_handler_switch:
  assumes ok: "sched_ok s" and n: "processnum s \<noteq> 0"
  obtains t where "clock_handler stack s = Ret (processes s ! next_process s) t"
    and "unat (process t) = next_process s" "processnum t = processnum s" "processes t = processes s"
    and "processesinfo t = processesinfo s" "cr3 t = pi_cr3 (processesinfo s ! next_process s)"
    and "tticks t = tticks s + 1" "ticks t = (if (tticks s + 1) mod 10 = 0 then ticks s + 1 else ticks s)"
proof -
  define q where "q = (if processnum s = process s then 1 else process s + 1)"
  note b = next_process_bounds [OF ok n]
  have lt: "process s < processnum s" if "processnum s \<noteq> process s"
    using ok that by (simp add: sched_ok_def order_less_le)
  have p: "unat q = next_process s"
    using lt unat_Suc_less [of "process s" "processnum s"] by (auto simp: next_process_def q_def)
  have len: "next_process s < 100" "length (processes s) = 100" "length (processesinfo s) = 100"
    using ok b by (auto simp: sched_ok_def)
  have al: "ALIGN (pi_cr3 (processesinfo s ! next_process s)) = pi_cr3 (processesinfo s ! next_process s)"
    using ok b by (simp add: sched_ok_def)
  show thesis
  proof (rule that)
    let ?s5 = "(clock_count s)\<lparr>process := q\<rparr>"
    let ?t = "?s5\<lparr>cr3 := pi_cr3 (processesinfo s ! next_process s)\<rparr>"
    have "write_cr3 (pi_cr3 (processesinfo s ! next_process s)) ?s5 = Ret () ?t"
      using al by (simp add: write_cr3_def)
    then show "clock_handler stack s = Ret (processes s ! next_process s) ?t"
      unfolding clock_handler_def Let_def clock_count_fields q_def [symmetric]
      using n len by (simp add: p clock_count_fields)
  qed (simp_all add: clock_count_fields p)
qed

lemma sched_ok_cong:
  assumes "sched_ok s" "processnum t = processnum s" "processes t = processes s" "processesinfo t = processesinfo s"
    "unat (process t) \<le> unat (processnum s)"
  shows "sched_ok t"
  using assms by (simp add: sched_ok_def word_le_nat_alt)

text \<open>A run of ticks: the stack pointers the handler returns, and how it ends.\<close>

fun clock_ticks :: "nat \<Rightarrow> u64 \<Rightarrow> 'a tasks_scheme \<Rightarrow> (u64 list, 'a tasks_scheme) outcome" where
  "clock_ticks 0 stack s = Ret [] s"
| "clock_ticks (Suc k) stack s =
     bind_outcome (clock_handler stack s) (\<lambda>r t. bind_outcome (clock_ticks k stack t) (\<lambda>rs u. Ret (r # rs) u))"

lemma cycle_next: "0 < n \<Longrightarrow> q < n \<Longrightarrow> (if Suc q = n then 0 else Suc q) = Suc q mod n"
  by (simp add: mod_Suc)

lemma clock_ticks_cycle:
  assumes "sched_ok s" "unat (processnum s) = n" "0 < n" "next_process s = Suc q"
  shows "\<exists>t. clock_ticks k stack s = Ret (map (\<lambda>i. processes s ! Suc ((q + i) mod n)) [0..<k]) t \<and>
    sched_ok t \<and> processnum t = processnum s \<and> processes t = processes s"
  using assms
proof (induction k arbitrary: s q)
  case 0
  then show ?case by simp
next
  case (Suc k)
  have n0: "processnum s \<noteq> 0" using Suc.prems(2,3) by auto
  have q: "q < n" using next_process_bounds [OF Suc.prems(1) n0] Suc.prems(2,4) by simp
  obtain t where t: "clock_handler stack s = Ret (processes s ! Suc q) t" "unat (process t) = Suc q"
    "processnum t = processnum s" "processes t = processes s" "processesinfo t = processesinfo s"
    by (rule clock_handler_switch [OF Suc.prems(1) n0, of stack]) (use Suc.prems(4) in simp)
  have ok: "sched_ok t"
    using sched_ok_cong [OF Suc.prems(1) t(3-5)] t(2) q Suc.prems(2) by simp
  have "processnum t = process t \<longleftrightarrow> n = Suc q"
    using t(2,3) Suc.prems(2) by (metis word_unat_eq_iff)
  then have "next_process t = Suc (Suc q mod n)"
    using t(2) cycle_next [OF Suc.prems(3) q] by (auto simp: next_process_def)
  then obtain u where u: "clock_ticks k stack t = Ret (map (\<lambda>i. processes s ! Suc ((Suc q mod n + i) mod n)) [0..<k]) u"
    "sched_ok u" "processnum u = processnum s" "processes u = processes s"
    using Suc.IH [OF ok] t Suc.prems(2,3) by fastforce
  have "map (\<lambda>i. processes s ! Suc ((q + i) mod n)) [0..<Suc k] =
      processes s ! Suc q # map (\<lambda>i. processes s ! Suc ((Suc q mod n + i) mod n)) [0..<k]"
    using q by (simp add: upt_conv_Cons map_Suc_upt [symmetric] mod_add_left_eq del: upt_Suc)
  then show ?case using t(1) u by simp
qed

lemma rotation_image: "0 < n \<Longrightarrow> (\<lambda>i. Suc ((a + i) mod n)) ` {..<n} = {1..n}"
proof (intro equalityI subsetI)
  assume n: "0 < n"
  show "x \<in> {1..n}" if "x \<in> (\<lambda>i. Suc ((a + i) mod n)) ` {..<n}" for x
    using that n by (auto simp: Suc_le_eq)
  show "x \<in> (\<lambda>i. Suc ((a + i) mod n)) ` {..<n}" if x: "x \<in> {1..n}" for x
  proof
    let ?i = "(x - 1 + (n * a - a)) mod n"
    show "?i \<in> {..<n}" using n by simp
    have "a \<le> n * a" using n by simp
    then have "a + (x - 1 + (n * a - a)) = x - 1 + n * a" by linarith
    then have "(a + (x - 1 + (n * a - a))) mod n = (x - 1 + n * a) mod n" by (simp only:)
    also have "\<dots> = (x - 1) mod n" by (rule mod_mult_self2)
    also have "\<dots> = x - 1" using x by (intro mod_less) auto
    finally have "(a + ?i) mod n = x - 1" by (simp only: mod_add_right_eq)
    then show "x = Suc ((a + ?i) mod n)" using x by simp
  qed
qed

text \<open>
  C6. The scheduler is round robin and never fails: with \<open>n > 0\<close> processes registered, \<open>k\<close> successive
  timer interrupts return, and hand the processor to the processes in cyclic order from the next one
  on; and \<open>n\<close> successive interrupts serve every process from 1 to \<open>n\<close>.
\<close>

theorem clock_handler_round_robin:
  assumes "sched_ok s" "n = unat (processnum s)" "0 < n"
  shows "(\<exists>t. clock_ticks k stack s =
      Ret (map (\<lambda>i. processes s ! Suc ((next_process s - 1 + i) mod n)) [0..<k]) t \<and> sched_ok t) \<and>
    (\<lambda>i. Suc ((next_process s - 1 + i) mod n)) ` {..<n} = {1..n}"
proof
  have n0: "processnum s \<noteq> 0" using assms(2,3) by auto
  then have q: "next_process s = Suc (next_process s - 1)"
    using next_process_bounds [OF assms(1)] by simp
  show "\<exists>t. clock_ticks k stack s =
      Ret (map (\<lambda>i. processes s ! Suc ((next_process s - 1 + i) mod n)) [0..<k]) t \<and> sched_ok t"
    using clock_ticks_cycle [OF assms(1) assms(2) [symmetric] assms(3) q, of k stack] by blast
  show "(\<lambda>i. Suc ((next_process s - 1 + i) mod n)) ` {..<n} = {1..n}"
    using assms(3) by (rule rotation_image)
qed

text \<open>A machine with three processes, the second of them running.\<close>

definition sched_sample :: tasks where
  "sched_sample = vmm.extend paging_sample \<lparr>tticks = 0, ticks = 0, process = 2, tempdebug = 0,
     processes = replicate 100 0x7FFFF50, processesinfo = replicate 100 \<lparr>pi_cr3 = 0x1000\<rparr>\<rparr>\<lparr>processnum := 3\<rparr>"

lemma sched_sample_simps [simp]:
  "processnum sched_sample = 3" "process sched_sample = 2" "processes sched_sample = replicate 100 0x7FFFF50"
  "processesinfo sched_sample = replicate 100 \<lparr>pi_cr3 = 0x1000\<rparr>" "tticks sched_sample = 0"
  by (simp_all add: sched_sample_def vmm.defs)

lemma sched_ok_sample: "sched_ok sched_sample"
  by (simp add: sched_ok_def ALIGN_def)

theorem clock_handler_round_robin_witness:
  "next_process sched_sample = 3 \<and> (\<exists>t. clock_ticks 2 0 sched_sample = Ret [0x7FFFF50, 0x7FFFF50] t)"
proof -
  have n: "next_process sched_sample = 3" by (simp add: next_process_def)
  then show ?thesis
    using clock_handler_round_robin [OF sched_ok_sample, of 3 2 0] by (auto simp: upt_rec)
qed

text \<open>
  C29. A switch loses the interrupted context: once a process is registered, the handler's result does
  not depend on the stack pointer it is given, and it changes neither array, so every switch to a
  process resumes it at the stack pointer \<open>run_elf\<close> registered.
\<close>

theorem clock_handler_forgets_stack:
  assumes "processnum s \<noteq> 0"
  shows "clock_handler stack s = clock_handler stack' s \<and>
    (\<forall>r t. clock_handler stack s = Ret r t \<longrightarrow>
       processes t = processes s \<and> processesinfo t = processesinfo s \<and> r = processes s ! unat (process t))"
  using assms
  by (auto simp: clock_handler_def clock_count_fields write_cr3_def Let_def bind_outcome_Ret split: if_splits)

theorem clock_handler_forgets_stack_witness:
  "clock_handler 0x1000 sched_sample = clock_handler 0x2000 sched_sample"
  using clock_handler_forgets_stack [of sched_sample] by simp

text \<open>
  \<open>ticks\<close> counts every tenth interrupt: as long as the 64-bit counters have not wrapped, if
  \<open>ticks\<close> is \<open>tticks div 10\<close> before an interrupt that returns it is so afterwards.
\<close>

lemma clock_handler_counts_tens:
  assumes "clock_handler stack s = Ret r t" "ticks s = tticks s div 10" "tticks s \<noteq> -1"
  shows "tticks t = tticks s + 1 \<and> ticks t = tticks t div 10"
proof -
  have t: "tticks t = tticks s + 1" "ticks t = (if (tticks s + 1) mod 10 = 0 then ticks s + 1 else ticks s)"
  proof -
    have "tticks t = tticks (clock_count s)" "ticks t = ticks (clock_count s)"
      using assms(1)
      by (auto simp: clock_handler_def clock_count_fields(1-4) write_cr3_def Let_def bind_outcome_Ret split: if_splits)
    then show "tticks t = tticks s + 1" "ticks t = (if (tticks s + 1) mod 10 = 0 then ticks s + 1 else ticks s)"
      unfolding clock_count_fields .
  qed
  let ?n = "unat (tticks s)"
  have u: "unat (tticks s + 1) = Suc ?n"
    using assms(3) unat_Suc_less [of "tticks s" "-1"] by (simp add: word_order.not_eq_extremum)
  have "unat ((tticks s + 1) mod 10) = Suc ?n mod 10"
    by (simp add: unat_mod_distrib u)
  then have m: "(tticks s + 1) mod 10 = 0 \<longleftrightarrow> Suc ?n mod 10 = 0"
    by (metis unat_0 unat_eq_zero)
  have d: "unat (ticks s) = ?n div 10"
    using assms(2) by (simp add: unat_div_distrib)
  then have s1: "unat (ticks s + 1) = Suc (?n div 10)"
    using unat_lt_u64 [of "tticks s"] by (simp add: unat_word_ariths)
  have "unat (ticks t) = unat ((tticks s + 1) div 10)"
    unfolding t(2) m using d s1 by (simp add: unat_div_distrib u div_Suc)
  then show ?thesis
    unfolding t(1) by (simp add: word_unat_eq_iff)
qed

lemma clock_handler_counts_tens_witness:
  "\<exists>r t. clock_handler 0 sched_sample = Ret r t \<and> ticks t = tticks t div 10"
proof -
  obtain r t where "clock_handler 0 sched_sample = Ret r t"
    by (rule clock_handler_switch [OF sched_ok_sample, of 0]) simp_all
  moreover have "ticks sched_sample = 0"
    by (simp add: sched_sample_def vmm.defs)
  ultimately show ?thesis
    using clock_handler_counts_tens [of 0 sched_sample r t] by simp
qed

section \<open>What the loader registers\<close>

declare same_but_io_trans [trans]

lemma newpml4_io: "same_but_io s (snd (newpml4 s))"
  by (rule same_but_mem_io [OF newpml4_same])

lemma pmalloc_io: "same_but_io s (snd (pmalloc n s))"
  by (rule same_but_mem_io [OF pmalloc_same])

lemma get_alloc_next_same: "same_but_mem s (snd (get_alloc_next cur idx s))"
proof -
  obtain f s' where c: "pmalloc 1 s = (f, s')" by fastforce
  have "same_but_mem s s'" using pmalloc_same [of s 1] c by simp
  then have "same_but_mem s (store64 a v s')" for a v
    using same_but_mem_trans by blast
  then show ?thesis by (simp add: get_alloc_next_def c Let_def)
qed

lemma map_block_same: "same_but_mem s (map_block pt virt phys flags s)"
proof -
  have step: "same_but_mem s (snd (get_alloc_next c i t))" if "same_but_mem s t" for c i t
    using same_but_mem_trans [OF that get_alloc_next_same] .
  show ?thesis
    unfolding map_block_def Let_def
    by (auto split: prod.splits intro!: same_but_mem_trans [OF _ same_but_mem_store(3)])
      (metis get_alloc_next_same same_but_mem_trans snd_conv)
qed

lemma elf_stack_page_io: "same_but_io s (elf_stack_page c r i s)"
  unfolding elf_stack_page_def Let_def
  by (rule same_but_io_trans [OF same_but_io_trans [OF print_hex_io print_hex_io] same_but_mem_io [OF map_block_same]])

lemma elf_segment_io: "same_but_io s (elf_segment c data pt i s)"
proof -
  obtain a s1 where p: "pmalloc (ucast (ALIGNUP (ph_memsz s pt i))) s = (a, s1)" by fastforce
  have "same_but_io s s1" using pmalloc_io [of s "ucast (ALIGNUP (ph_memsz s pt i))"] p by simp
  moreover have "same_but_io s1 (fold (\<lambda>j s. map_block c (ph_vaddr s pt i + push_bit 12 (of_nat j))
      (a + push_bit 12 (of_nat j)) 3 s) [0..<n] s1)" for n
    by (intro same_but_io_fold same_but_mem_io [OF map_block_same])
  ultimately show ?thesis
    unfolding elf_segment_def Let_def p prod.case
    by (auto intro!: same_but_io_trans [OF _ same_but_mem_io [OF memset_st_same]]
        same_but_io_trans [OF _ same_but_mem_io [OF memcpy_st_same]] intro: same_but_io_trans)
qed

lemma elf_segments_io: "same_but_io s (elf_segments c data pt i s)"
proof (induction c data pt i s rule: elf_segments.induct)
  case (1 c data pt i s)
  then show ?case
    using same_but_io_trans [OF elf_segment_io [of s c data pt i]]
    by (auto simp: elf_segments.simps [of c data pt i s])
qed

lemma loadelf_result_0: "loadelf_result 0 = SUCCESS"
  by (simp add: loadelf_result_def)

text \<open>Building the address space changes memory and the port log only.\<close>

lemma elf_build_io:
  assumes "elf_build data stackbytes s = (c, r, t)"
  shows "same_but_io s t" "c = fst (newpml4 s)"
proof -
  let ?st = "locals s ''run_elf.state''" and ?b = "locals s ''run_elf.buf''"
  obtain d s1 where c: "newpml4 s = (d, s1)" by fastforce
  define s2 where "s2 = print_hex (locals s ''run_elf.buf2'') 15 d 0xff00ff s1"
  define s3 where "s3 = store64 (?st + 136) (load64 s2 (data + 24)) s2"
  obtain q s4 where q: "pmalloc (stackbytes div 4096) s3 = (q, s4)" by fastforce
  define s6 where "s6 = store64 (?st + 160) (0x8000000 - 176) (store64 (?st + 64) 0x8000000 s4)"
  define s7 where "s7 = print_hex ?b 7 (load64 s6 (?st + 160)) 0xffff s6"
  define s8 where "s8 = fold (elf_stack_page d q) [0..<unat (stackbytes div 4096)] s7"
  define s9 where "s9 = print_hex ?b 4 (ph_vaddr s8 (data + load64 s (data + 32)) 0) 0xff0fff s8"
  define s10 where "s10 = elf_segments d data (data + load64 s (data + 32)) 0 s9"
  have t: "d = c" "q = r" "t = memcpy_st (q + ucast stackbytes - 176 + hhdm s10) ?st 176 s10"
    using assms unfolding elf_build_def Let_def c prod.case s2_def [symmetric] s3_def [symmetric] q s6_def [symmetric]
      s7_def [symmetric] s8_def [symmetric] s9_def [symmetric] s10_def [symmetric] by auto
  have "same_but_io s s1" using newpml4_io [of s] c by simp
  also have "same_but_io s1 s2" unfolding s2_def by (rule print_hex_io)
  also have "same_but_io s2 s3" unfolding s3_def by (rule same_but_mem_io) simp
  also have "same_but_io s3 s4" using pmalloc_io [of s3 "stackbytes div 4096"] q by simp
  also have "same_but_io s4 s6"
    unfolding s6_def by (rule same_but_mem_io, rule same_but_mem_trans) (rule same_but_mem_store)+
  also have "same_but_io s6 s7" unfolding s7_def by (rule print_hex_io)
  also have "same_but_io s7 s8" unfolding s8_def by (intro same_but_io_fold elf_stack_page_io)
  also have "same_but_io s8 s9" unfolding s9_def by (rule print_hex_io)
  also have "same_but_io s9 s10" unfolding s10_def by (rule elf_segments_io)
  also have "same_but_io s10 t" unfolding t by (rule same_but_mem_io) simp
  finally show "same_but_io s t" .
  show "c = fst (newpml4 s)" using c t by simp
qed

lemma run_elf_loaded:
  assumes check: "elf_check s data bytes = 0" and p: "p = unat (processnum s + 1)"
    and t: "elf_build data stackbytes s = (c, r, t)"
  shows "run_elf data bytes stackbytes s =
      (if p < length (processes s) \<and> p < length (processesinfo s)
       then Ret SUCCESS (t\<lparr>processes := (processes s)[p := load64 t (locals s ''run_elf.state'' + 160)],
              processesinfo := (processesinfo s)[p := \<lparr>pi_cr3 = c\<rparr>], processnum := processnum s + 1\<rparr>)
       else Undef)"
proof -
  note io = elf_build_io(1) [OF t]
  have "processes t = processes s" "processesinfo t = processesinfo s" "processnum t = processnum s" "locals t = locals s"
    using same_but_io_tasks [OF io] same_but_io_sys [OF io] same_but_io_machine [OF io] by simp_all
  then show ?thesis
    by (simp add: run_elf_def check p t loadelf_result_0 Let_def)
qed

lemma run_elf_registers_lemma:
  assumes check: "elf_check s data bytes = 0" and p: "p = unat (processnum s + 1)"
  obtains t rsp where "same_but_io s t"
    and "run_elf data bytes stackbytes s =
      (if p < length (processes s) \<and> p < length (processesinfo s)
       then Ret SUCCESS (t\<lparr>processes := (processes s)[p := rsp],
              processesinfo := (processesinfo s)[p := \<lparr>pi_cr3 = fst (newpml4 s)\<rparr>], processnum := processnum s + 1\<rparr>)
       else Undef)"
proof -
  obtain c r t where t: "elf_build data stackbytes s = (c, r, t)" by (cases "elf_build data stackbytes s")
  show thesis
    by (rule that [OF elf_build_io(1) [OF t] run_elf_loaded [OF check p t, unfolded elf_build_io(2) [OF t]]])
qed

lemma pmalloc_aligned: "ALIGN (fst (pmalloc blocks s)) = fst (pmalloc blocks s)"
proof -
  have "ALIGN (push_bit 12 p) = push_bit 12 p" for p
    unfolding ALIGN_shift by (rule bit_word_eqI) (auto simp: bit_push_bit_iff bit_drop_bit_eq)
  moreover have "ALIGN 0 = 0" by (simp add: ALIGN_def)
  ultimately show ?thesis
    by (auto simp: pmalloc_def Let_def split: option.splits)
qed

lemma newpml4_aligned: "ALIGN (fst (newpml4 s)) = fst (newpml4 s)"
proof -
  obtain p t where "pmalloc 1 s = (p, t)" by fastforce
  then show ?thesis
    using pmalloc_aligned [of 1 s] by (simp add: newpml4_def Let_def)
qed

text \<open>
  C12. The loader's refusals, case by case: nothing is changed, and the enumerator returned is that of
  the first check that fails. A file of 120 bytes or less is reported as \<open>WRONG_MAGIC\<close> and a wrong
  first byte as \<open>WRONG_SIZE\<close>.
\<close>

theorem run_elf_refuses:
  assumes "\<not> (120 < bytes \<and> load8 s data = 0x7F \<and> load16 s (data + 18) = 0x3E \<and> load8 s (data + 4) = 2 \<and>
    load8 s (data + 5) = 1 \<and> load16 s (data + 16) = 2)"
  shows "run_elf data bytes stackbytes s = Ret
    (if bytes \<le> 120 then WRONG_MAGIC else if load8 s data \<noteq> 0x7F then WRONG_SIZE
     else if load16 s (data + 18) \<noteq> 0x3E then WRONG_ARCH else if load8 s (data + 4) \<noteq> 2 then WRONG_BITTAGE
     else if load8 s (data + 5) \<noteq> 1 then WRONG_ENDIANNESS else NOT_EXECUTABLE) s"
proof -
  have "elf_check s data bytes \<noteq> 0"
    using assms by (auto simp: elf_check_def not_less)
  then have "run_elf data bytes stackbytes s = Ret (loadelf_result (elf_check s data bytes)) s"
    by (simp add: run_elf_def)
  then show ?thesis
    using assms by (auto simp: elf_check_def loadelf_result_def not_less)
qed

theorem run_elf_refuses_witness:
  "run_elf 0x4000 100 4096 sched_sample = Ret WRONG_MAGIC sched_sample \<and>
   run_elf 0x4000 200 4096 sched_sample = Ret WRONG_SIZE sched_sample"
proof -
  have "load8 sched_sample 0x4000 = 0"
    by (simp add: ld8_def sched_sample_def vmm.defs)
  then show ?thesis
    using run_elf_refuses [of 100 sched_sample "0x4000" 4096] run_elf_refuses [of 200 sched_sample "0x4000" 4096] by simp
qed

lemma run_elf_registers_ok:
  assumes ok: "sched_ok s" and check: "elf_check s data bytes = 0" and lt: "processnum s < 99"
  shows "\<exists>t. run_elf data bytes stackbytes s = Ret SUCCESS t \<and> sched_ok t \<and> processnum t = processnum s + 1 \<and>
        pi_cr3 (processesinfo t ! unat (processnum t)) = fst (newpml4 s) \<and>
        (\<forall>p\<le>unat (processnum s). processes t ! p = processes s ! p \<and> processesinfo t ! p = processesinfo s ! p)"
proof -
  let ?n = "unat (processnum s)"
  have n99: "?n < 99" using lt by (simp add: word_less_nat_alt)
  then have n1: "unat (processnum s + 1) = Suc ?n"
    by (simp add: unat_word_ariths)
  obtain t rsp where io: "same_but_io s t" and r: "run_elf data bytes stackbytes s =
      (if Suc ?n < length (processes s) \<and> Suc ?n < length (processesinfo s)
       then Ret SUCCESS (t\<lparr>processes := (processes s)[Suc ?n := rsp],
              processesinfo := (processesinfo s)[Suc ?n := \<lparr>pi_cr3 = fst (newpml4 s)\<rparr>],
              processnum := processnum s + 1\<rparr>)
       else Undef)"
    by (rule run_elf_registers_lemma [OF check n1 [symmetric], of stackbytes]) blast
  have len: "length (processes s) = 100" "length (processesinfo s) = 100"
    using ok by (simp_all add: sched_ok_def)
  let ?t = "t\<lparr>processes := (processes s)[Suc ?n := rsp],
            processesinfo := (processesinfo s)[Suc ?n := \<lparr>pi_cr3 = fst (newpml4 s)\<rparr>],
            processnum := processnum s + 1\<rparr>"
  have "unat (process s) \<le> ?n" using ok by (simp add: sched_ok_def word_le_nat_alt)
  then have "sched_ok ?t"
    using ok n99 len same_but_io_tasks [OF io] newpml4_aligned [of s]
    by (auto simp: sched_ok_def word_le_nat_alt n1 nth_list_update le_Suc_eq)
  then show ?thesis using r n99 len n1 by simp
qed

lemma run_elf_full:
  assumes ok: "sched_ok s" and check: "elf_check s data bytes = 0" and full: "\<not> processnum s < 99"
  shows "run_elf data bytes stackbytes s = Undef"
proof -
  have n: "unat (processnum s) = 99"
    using ok full by (simp add: sched_ok_def word_less_nat_alt)
  then have "unat (processnum s + 1) = 100" by (simp add: unat_word_ariths)
  then show ?thesis
    using run_elf_registers_lemma [OF check refl, of stackbytes] ok by (auto simp: sched_ok_def)
qed

text \<open>
  C11. A file that passes the checks becomes one more process, in every case: with fewer than 99
  processes \<open>run_elf\<close> returns \<open>SUCCESS\<close>, the scheduler stays well formed, the new table is the one from
  \<open>newpml4\<close>, and the processes registered before keep their entries; with 99 it writes past the arrays.
\<close>

theorem run_elf_registers:
  assumes "sched_ok s" "elf_check s data bytes = 0"
  shows "if processnum s < 99
    then \<exists>t. run_elf data bytes stackbytes s = Ret SUCCESS t \<and> sched_ok t \<and> processnum t = processnum s + 1 \<and>
        pi_cr3 (processesinfo t ! unat (processnum t)) = fst (newpml4 s) \<and>
        (\<forall>p\<le>unat (processnum s). processes t ! p = processes s ! p \<and> processesinfo t ! p = processesinfo s ! p)
    else run_elf data bytes stackbytes s = Undef"
  using run_elf_registers_ok [OF assms] run_elf_full [OF assms] by simp

definition elf_sample :: tasks where
  "elf_sample = sched_sample\<lparr>mem := (\<lambda>a. if a = 0x4000 then 0x7F else if a = 0x4004 then 2 else if a = 0x4005 then 1
     else if a = 0x4010 then 2 else if a = 0x4012 then 0x3E else if a = 0x100000 then 3 else 0)\<rparr>"

lemma elf_check_sample: "elf_check elf_sample 0x4000 200 = 0"
proof -
  have "xlat sched_sample = (\<lambda>_ a. a)" by (simp add: sched_sample_def vmm.defs)
  then show ?thesis
    by (simp add: elf_check_def elf_sample_def ld8_def ld16_def ld_bytes_def upt_rec)
qed

theorem run_elf_registers_witness:
  "\<exists>t. run_elf 0x4000 200 4096 elf_sample = Ret SUCCESS t \<and> processnum t = 4"
proof -
  have "sched_ok elf_sample" "processnum elf_sample = 3"
    using sched_ok_sample by (simp_all add: sched_ok_def elf_sample_def)
  then show ?thesis
    using run_elf_registers [of elf_sample "0x4000" 200 4096] elf_check_sample by auto
qed

text \<open>
  The scheduler as a machine of events: timer interrupts and program loads. A run ends at the first
  call that does not return.
\<close>

datatype sched_event = Tick u64 | Load u64 u32 u32

fun sched_step :: "'a tasks_scheme \<Rightarrow> sched_event \<Rightarrow> (unit, 'a tasks_scheme) outcome" where
  "sched_step s (Tick stack) = bind_outcome (clock_handler stack s) (\<lambda>_ t. Ret () t)"
| "sched_step s (Load data bytes stackbytes) = bind_outcome (run_elf data bytes stackbytes s) (\<lambda>_ t. Ret () t)"

text \<open>The one way a run may end early: a program that passes the checks, loaded with the arrays full.\<close>

definition overflows :: "'a tasks_scheme \<Rightarrow> sched_event \<Rightarrow> (unit, 'a tasks_scheme) outcome \<Rightarrow> bool" where
  "overflows s e r \<longleftrightarrow> r = Undef \<and> processnum s = 99 \<and>
     (\<exists>data bytes stackbytes. e = Load data bytes stackbytes \<and> elf_check s data bytes = 0)"

lemma clock_handler_sched_ok:
  assumes ok: "sched_ok s"
  obtains r t where "clock_handler stack s = Ret r t" "sched_ok t"
    "processnum s \<noteq> 0 \<Longrightarrow> r \<in> (\<lambda>p. processes s ! p) ` {1..unat (processnum s)}"
proof (cases "processnum s = 0")
  case True
  have "sched_ok (clock_count s)"
    using ok by (simp add: sched_ok_def clock_count_fields)
  then show thesis using that [OF clock_handler_idle [OF True]] True by simp
next
  case False
  obtain t where t: "clock_handler stack s = Ret (processes s ! next_process s) t" "unat (process t) = next_process s"
    "processnum t = processnum s" "processes t = processes s" "processesinfo t = processesinfo s"
    by (rule clock_handler_switch [OF ok False, of stack]) blast
  note b = next_process_bounds [OF ok False]
  have "sched_ok t"
    using sched_ok_cong [OF ok t(3-5)] t(2) b by simp
  then show thesis using that [OF t(1)] b by simp
qed

lemma sched_step_cases:
  assumes ok: "sched_ok s"
  shows "(\<exists>t. sched_step s e = Ret () t \<and> sched_ok t) \<or> (overflows s e (sched_step s e) \<and> (\<forall>t. sched_step s e \<noteq> Ret () t))"
proof (cases e)
  case (Tick stack)
  obtain r t where "clock_handler stack s = Ret r t" "sched_ok t"
    by (rule clock_handler_sched_ok [OF ok, of stack]) blast
  then show ?thesis using Tick by simp
next
  case (Load data bytes stackbytes)
  consider "elf_check s data bytes \<noteq> 0" | "elf_check s data bytes = 0" "processnum s < 99"
    | "elf_check s data bytes = 0" "\<not> processnum s < 99" by blast
  then show ?thesis
  proof cases
    case 1
    then show ?thesis using Load ok by (simp add: run_elf_def)
  next
    case 2
    then show ?thesis using Load run_elf_registers_ok [OF ok 2, of stackbytes] by auto
  next
    case 3
    have "unat (processnum s) = unat (99 :: u32)"
      using ok 3(2) by (simp add: sched_ok_def word_less_nat_alt)
    then have "processnum s = 99" by (simp only: word_unat_eq_iff)
    then show ?thesis using Load 3 run_elf_full [OF ok 3, of stackbytes] by (simp add: overflows_def)
  qed
qed

interpretation sched: outcome_machine sched_step sched_ok overflows
  by unfold_locales (rule sched_step_cases)

text \<open>
  C7. Timer interrupts and program loads, in any order, keep the scheduler well formed, up to the first
  load that overflows its arrays. Either the whole run returns, in a well-formed state in which the next
  timer interrupt returns too, with the stack pointer of a registered process if there is one; or the run
  got, through a well-formed state with 99 processes, to the load of one more program that passes the
  checks, and that call writes past the arrays.
\<close>

theorem scheduler_stays_well_formed:
  assumes "sched_ok s"
  shows "(\<exists>t. run_events sched_step es s = Ret () t \<and> sched_ok t \<and> (\<exists>r u. clock_handler stack t = Ret r u \<and>
      (processnum t \<noteq> 0 \<longrightarrow> r \<in> (\<lambda>p. processes t ! p) ` {1..unat (processnum t)}))) \<or>
    (run_events sched_step es s = Undef \<and> (\<exists>es1 data bytes stackbytes es2 t. es = es1 @ Load data bytes stackbytes # es2 \<and>
      run_events sched_step es1 s = Ret () t \<and> sched_ok t \<and> processnum t = 99 \<and> elf_check t data bytes = 0))"
  using sched.run_cases [OF assms, of es]
proof
  assume "\<exists>t. run_events sched_step es s = Ret () t \<and> sched_ok t"
  then obtain t where t: "run_events sched_step es s = Ret () t" "sched_ok t" by blast
  obtain r u where "clock_handler stack t = Ret r u"
    "processnum t \<noteq> 0 \<Longrightarrow> r \<in> (\<lambda>p. processes t ! p) ` {1..unat (processnum t)}"
    by (rule clock_handler_sched_ok [OF t(2), of stack]) blast
  then show ?thesis using t by blast
next
  assume "\<exists>es1 e es2 t. es = es1 @ e # es2 \<and> run_events sched_step es1 s = Ret () t \<and> sched_ok t \<and>
    overflows t e (sched_step t e) \<and> run_events sched_step es s = sched_step t e"
  then show ?thesis unfolding overflows_def by metis
qed

theorem scheduler_stays_well_formed_witness:
  "(\<exists>t. run_events sched_step [Tick 0, Load 0x4000 100 4096, Tick 0] sched_sample = Ret () t \<and> sched_ok t) \<and>
   run_events sched_step [Load 0x4000 200 4096] (elf_sample\<lparr>processnum := 99\<rparr>) = Undef"
proof
  show "\<exists>t. run_events sched_step [Tick 0, Load 0x4000 100 4096, Tick 0] sched_sample = Ret () t \<and> sched_ok t"
  proof -
    have "elf_check t data bytes \<noteq> 0"
      if "[Tick 0, Load 0x4000 100 4096, Tick 0] = es1 @ Load data bytes stackbytes # es2" for es1 es2 data bytes stackbytes and t :: tasks
      using that by (auto simp: Cons_eq_append_conv elf_check_def)
    then show ?thesis
      using scheduler_stays_well_formed [OF sched_ok_sample, of "[Tick 0, Load 0x4000 100 4096, Tick 0]" 0] by blast
  qed
next
  have "elf_check (elf_sample\<lparr>processnum := 99\<rparr>) 0x4000 200 = 0"
  proof -
    have "elf_check (elf_sample\<lparr>processnum := 99\<rparr>) 0x4000 200 = elf_check elf_sample 0x4000 200"
      by (simp add: elf_check_def)
    then show ?thesis using elf_check_sample by simp
  qed
  moreover have "sched_ok (elf_sample\<lparr>processnum := 99\<rparr>)"
    by (simp add: sched_ok_def elf_sample_def word_le_nat_alt ALIGN_def)
  ultimately show "run_events sched_step [Load 0x4000 200 4096] (elf_sample\<lparr>processnum := 99\<rparr>) = Undef"
    using run_elf_full [of "elf_sample\<lparr>processnum := 99\<rparr>" "0x4000" 200 4096] by simp
qed

end
