(* ===== verification/Keyboard.thy ===== *)
theory Keyboard
  imports Tasks
begin

text \<open>
  \<open>drivers/keyboard.c\<close>: scan codes to characters. The record adds the four modifier flags. The two
  tables hold the bytes of the C initialisers; a read past the end of a table would be \<^const>\<open>Undef\<close>.
\<close>

record keyboard = tasks +
  isShift :: bool
  isCtrl :: bool
  isAlt :: bool
  isLock :: bool

definition KEY_ESC :: u8 where "KEY_ESC = 0xFF"
definition KEY_BCK :: u8 where "KEY_BCK = 0xFE"
definition KEY_ENT :: u8 where "KEY_ENT = 0xFD"

definition scancode_to_char :: "u8 list" where
  "scancode_to_char =
     lit ''?'' @ [KEY_ESC] @ lit ''1234567890-='' @
     [KEY_BCK] @ lit ''?qwertyuiop[]'' @
     [KEY_ENT] @ lit ''?asdfghjkl;'' @ [0x27] @ lit ''`?'' @ [0x5C] @ lit ''zxcvbnm,./??? ''"

definition shift_scancode_to_char :: "u8 list" where
  "shift_scancode_to_char =
     lit ''?'' @ [KEY_ESC] @ lit ''!@#$%^&*()_+'' @
     [KEY_BCK] @ lit ''?QWERTYUIOP{}'' @
     [KEY_ENT] @ lit ''?ASDFGHJKL:'' @ [0x22] @ lit ''~?|ZXCVBNM<>???? ''"

text \<open>The driver's interrupt routine, \<open>_keyboard_int\<close> of the source.\<close>

definition drv_keyboard_int :: "'a keyboard_scheme \<Rightarrow> (u8, 'a keyboard_scheme) outcome" where
  "drv_keyboard_int s =
     (let (r, s1) = read_port 0x60 s
      in if r = 0x1D then Ret 0 (s1\<lparr>isCtrl := True\<rparr>)
         else if r = 0x9D then Ret 0 (s1\<lparr>isCtrl := False\<rparr>)
         else if r = 0x2A then Ret 0 (s1\<lparr>isShift := True\<rparr>)
         else if r = 0xAA then Ret 0 (s1\<lparr>isShift := False\<rparr>)
         else if r = 0x38 then Ret 0 (s1\<lparr>isAlt := True\<rparr>)
         else if r = 0xB8 then Ret 0 (s1\<lparr>isAlt := False\<rparr>)
         else if r = 0x3A then Ret 0 (s1\<lparr>isLock := (if isLock s1 then False else True)\<rparr>)
         else if r > 0x3A then Ret 0 s1
         else let table = (if isShift s1 \<noteq> isLock s1 then shift_scancode_to_char else scancode_to_char)
              in if unat r < length table then Ret (table ! unat r) s1 else Undef)"

section \<open>The tables\<close>

lemma length_tables: "length scancode_to_char = 58" "length shift_scancode_to_char = 58"
  by (simp_all add: scancode_to_char_def shift_scancode_to_char_def lit_def)

text \<open>The letters of the two tables differ by case and nothing else.\<close>

definition is_lower :: "u8 \<Rightarrow> bool" where
  "is_lower c \<longleftrightarrow> 97 \<le> c \<and> c \<le> 122"

lemma tables_case:
  "i < 58 \<Longrightarrow> is_lower (scancode_to_char ! i) \<Longrightarrow> shift_scancode_to_char ! i = scancode_to_char ! i - 32"
proof -
  have "list_all2 (\<lambda>a b. is_lower a \<longrightarrow> b = a - 32) scancode_to_char shift_scancode_to_char"
    by (simp add: scancode_to_char_def shift_scancode_to_char_def lit_def is_lower_def KEY_ESC_def KEY_BCK_def KEY_ENT_def)
  then show "i < 58 \<Longrightarrow> is_lower (scancode_to_char ! i) \<Longrightarrow> shift_scancode_to_char ! i = scancode_to_char ! i - 32"
    by (simp add: list_all2_conv_all_nth length_tables)
qed

lemma tables_no_zero: "i < 58 \<Longrightarrow> scancode_to_char ! i \<noteq> 0 \<and> shift_scancode_to_char ! i \<noteq> 0"
proof -
  have "list_all (\<lambda>a. a \<noteq> 0) scancode_to_char" "list_all (\<lambda>a. a \<noteq> 0) shift_scancode_to_char"
    by (simp_all add: scancode_to_char_def shift_scancode_to_char_def lit_def KEY_ESC_def KEY_BCK_def KEY_ENT_def)
  then show "i < 58 \<Longrightarrow> scancode_to_char ! i \<noteq> 0 \<and> shift_scancode_to_char ! i \<noteq> 0"
    by (simp add: list_all_length length_tables)
qed

section \<open>The driver against a reference decoder\<close>

text \<open>
  The reference: the pair of the shift and caps-lock states, moved by a scan code, and the character
  a scan code stands for in a pair.
\<close>

definition mod_next :: "bool \<times> bool \<Rightarrow> u8 \<Rightarrow> bool \<times> bool" where
  "mod_next m c = (if c = 0x2A then (True, snd m) else if c = 0xAA then (False, snd m)
     else if c = 0x3A then (fst m, \<not> snd m) else m)"

definition key_char :: "bool \<times> bool \<Rightarrow> u8 \<Rightarrow> u8" where
  "key_char m c =
     (if c \<ge> 0x3A \<or> c \<in> {0x1D, 0x2A, 0x38} then 0
      else (if fst m = snd m then scancode_to_char else shift_scancode_to_char) ! unat c)"

fun decode_keys :: "bool \<times> bool \<Rightarrow> u8 list \<Rightarrow> u8 list" where
  "decode_keys m [] = []"
| "decode_keys m (c # cs) = key_char m c # decode_keys (mod_next m c) cs"

definition scan_codes :: "'a machine_scheme \<Rightarrow> nat \<Rightarrow> u8 list" where
  "scan_codes s k = map (\<lambda>i. inport s (nreads s + i) 0x60) [0..<k]"

fun keyboard_run :: "nat \<Rightarrow> 'a keyboard_scheme \<Rightarrow> (u8 list, 'a keyboard_scheme) outcome" where
  "keyboard_run 0 s = Ret [] s"
| "keyboard_run (Suc k) s =
     bind_outcome (drv_keyboard_int s) (\<lambda>c t. bind_outcome (keyboard_run k t) (\<lambda>cs u. Ret (c # cs) u))"

definition modifiers :: "'a keyboard_scheme \<Rightarrow> bool \<times> bool" where
  "modifiers s = (isShift s, isLock s)"

lemma drv_keyboard_int_step:
  defines "r s \<equiv> inport s (nreads s) 0x60"
  shows "\<exists>t. drv_keyboard_int s = Ret (key_char (modifiers s) (r s)) t \<and> modifiers t = mod_next (modifiers s) (r s) \<and>
    nreads t = Suc (nreads s) \<and> inport t = inport s"
proof -
  let ?r = "inport s (nreads s) 0x60"
  have "unat ?r < 58" if "?r < 0x3A" using that by (simp add: word_less_nat_alt)
  moreover have "?r < 0x3A" if "\<not> ?r > 0x3A" "?r \<noteq> 0x3A" using that by simp
  ultimately show ?thesis
    by (auto simp: drv_keyboard_int_def read_port_def Let_def key_char_def mod_next_def modifiers_def r_def length_tables
        not_less)
qed

lemma scan_codes_Suc:
  "nreads t = Suc (nreads s) \<Longrightarrow> inport t = inport s \<Longrightarrow> scan_codes s (Suc k) = inport s (nreads s) 0x60 # scan_codes t k"
  by (simp add: scan_codes_def upt_conv_Cons map_Suc_upt [symmetric] del: upt_Suc)

text \<open>
  C30. The driver decodes the scan-code stream: \<open>k\<close> keyboard interrupts return, consume one byte of
  port 0x60 each, never read outside the tables, and yield the characters of the reference decoder
  started in the present shift and caps-lock states.
\<close>

theorem keyboard_decodes:
  "\<exists>t. keyboard_run k s = Ret (decode_keys (modifiers s) (scan_codes s k)) t \<and>
    modifiers t = foldl mod_next (modifiers s) (scan_codes s k) \<and> nreads t = nreads s + k"
proof (induction k arbitrary: s)
  case 0
  then show ?case by (simp add: scan_codes_def)
next
  case (Suc k)
  obtain t where t: "drv_keyboard_int s = Ret (key_char (modifiers s) (inport s (nreads s) 0x60)) t"
    "modifiers t = mod_next (modifiers s) (inport s (nreads s) 0x60)" "nreads t = Suc (nreads s)" "inport t = inport s"
    using drv_keyboard_int_step [of s] by blast
  show ?case
    using Suc.IH [of t] t by (auto simp: scan_codes_Suc [OF t(3,4)])
qed

text \<open>
  What a key types: a letter key gives its letter, in upper case when exactly one of shift and
  caps lock is on; a key release (a code from 0x80 on) gives nothing; and caps lock shifts the keys
  that are not letters too: with caps lock on, the key of the digit 1 types an exclamation mark.
\<close>

lemma key_char_cases:
  "(\<forall>c<58. c \<notin> {0x1D, 0x2A, 0x38} \<longrightarrow> is_lower (scancode_to_char ! unat c) \<longrightarrow>
      key_char m c = (if fst m \<noteq> snd m then scancode_to_char ! unat c - 32 else scancode_to_char ! unat c)) \<and>
   (\<forall>c\<ge>0x80. key_char m c = 0) \<and> key_char (False, True) 2 = 0x21 \<and> key_char (False, False) 2 = 0x31"
proof (intro conjI allI impI)
  fix c :: u8
  assume c: "c < 58" "c \<notin> {0x1D, 0x2A, 0x38}" "is_lower (scancode_to_char ! unat c)"
  then show "key_char m c = (if fst m \<noteq> snd m then scancode_to_char ! unat c - 32 else scancode_to_char ! unat c)"
    using tables_case [of "unat c"] by (auto simp: key_char_def word_less_nat_alt word_le_nat_alt)
next
  show "key_char m c = 0" if "0x80 \<le> c" for c
    using that by (simp add: key_char_def word_le_nat_alt)
qed (simp_all add: key_char_def scancode_to_char_def shift_scancode_to_char_def lit_def)

lemma key_char_cases_witness: "key_char (True, False) 0x1E = 0x41 \<and> key_char (True, False) 0x9E = 0"
proof -
  have "scancode_to_char ! unat (0x1E :: u8) = 0x61"
    by (simp add: scancode_to_char_def lit_def)
  then show ?thesis
    using key_char_cases [of "(True, False)", THEN conjunct1, rule_format, of "0x1E"]
      key_char_cases [of "(True, False)", THEN conjunct2, THEN conjunct1, rule_format, of "0x9E"]
    by (simp add: is_lower_def)
qed
end
