(* ===== verification/Mouse.thy ===== *)
theory Mouse
  imports Keyboard
begin

text \<open>
  \<open>drivers/mouse.c\<close>: the PS/2 mouse. The record adds the pointer position and buttons and the
  static variables of the packet assembler. A wait loop is bounded by its counter of 100000.
\<close>

record MousePacket =
  flags :: u8
  x_mov :: u8
  y_mov :: u8

record MouseState =
  leftb :: bool
  middleb :: bool
  rightb :: bool
  ms_x :: i32
  ms_y :: i32

record mouse = keyboard +
  mouse_x :: i32
  mouse_y :: i32
  left_pressed :: bool
  right_pressed :: bool
  middle_pressed :: bool
  handler_cycle :: i32
  current_packet :: MousePacket
  discard_packet :: i32

section \<open>The controller\<close>

text \<open>\<open>while(timeout--)\<close> over a status read; type 0 waits for bit 0 set, otherwise for bit 1 clear.\<close>

fun mouse_wait_loop :: "nat \<Rightarrow> i32 \<Rightarrow> 'a machine_scheme \<Rightarrow> 'a machine_scheme" where
  "mouse_wait_loop 0 type s = s"
| "mouse_wait_loop (Suc timeout) type s =
     (let (v, s1) = read_port 0x64 s
      in if (if type = 0 then v AND 1 \<noteq> 0 else v AND 2 = 0) then s1 else mouse_wait_loop timeout type s1)"

definition mouse_wait :: "i32 \<Rightarrow> 'a machine_scheme \<Rightarrow> 'a machine_scheme" where
  "mouse_wait type s = mouse_wait_loop 100000 type s"

definition mouse_write :: "u8 \<Rightarrow> 'a machine_scheme \<Rightarrow> 'a machine_scheme" where
  "mouse_write val s = write_port 0x60 val (mouse_wait 1 (write_port 0x64 0xd4 (mouse_wait 1 s)))"

definition mouse_read :: "'a machine_scheme \<Rightarrow> u8 \<times> 'a machine_scheme" where
  "mouse_read s = read_port 0x60 (mouse_wait 0 s)"

definition init_mouse :: "'a mouse_scheme \<Rightarrow> 'a mouse_scheme" where
  "init_mouse s =
     (let s1 = s\<lparr>mouse_x := ucast (fb_width s div 2), mouse_y := ucast (fb_height s div 2)\<rparr>;
          s2 = write_port 0x64 0xa8 (mouse_wait 1 s1);
          s3 = write_port 0x64 0x20 (mouse_wait 1 s2);
          (status, s4) = mouse_read s3;
          s5 = snd (mouse_read s4);
          status = (status OR 2) AND NOT 0x20;
          s6 = write_port 0x64 0x60 (mouse_wait 1 s5);
          s7 = write_port 0x60 status (mouse_wait 1 s6);
          s8 = snd (mouse_read s7);
          s9 = snd (mouse_read (mouse_write 0xff s8));
          s10 = snd (mouse_read (mouse_write 0xf6 s9))
      in snd (mouse_read (mouse_write 0xf4 s10)))"

section \<open>The packet assembler\<close>

text \<open>
  \<open>(int8_t)mov\<close> when the sign flag is set, \<open>mov\<close> otherwise; the sums are 64-bit and cannot overflow.
\<close>

definition movement :: "bool \<Rightarrow> u8 \<Rightarrow> int" where
  "movement neg mov = (if neg then sint mov else uint mov)"

definition clamp :: "int \<Rightarrow> int \<Rightarrow> int" where
  "clamp lim v = (if v > lim then lim else if v < 0 then 0 else v)"

text \<open>The third byte of a packet that is not discarded.\<close>

definition mouse_move :: "'a mouse_scheme \<Rightarrow> 'a mouse_scheme" where
  "mouse_move s =
     (let p = current_packet s;
          xm = movement (bit (flags p) 4) (x_mov p);
          ym = movement (bit (flags p) 5) (y_mov p)
      in s\<lparr>mouse_x := word_of_int (clamp (uint (fb_width s)) (xm + sint (mouse_x s))),
           mouse_y := word_of_int (clamp (uint (fb_height s)) (sint (mouse_y s) - ym)),
           left_pressed := bit (flags p) 0, right_pressed := bit (flags p) 1, middle_pressed := bit (flags p) 2\<rparr>)"

text \<open>The driver's interrupt routine, \<open>_mouse_int\<close> of the source.\<close>

definition drv_mouse_int :: "'a mouse_scheme \<Rightarrow> bool \<times> 'a mouse_scheme" where
  "drv_mouse_int s =
     (if ticks s < 250 then (False, snd (read_port 0x60 s))
      else if handler_cycle s = 0
      then let (b, s1) = read_port 0x60 s;
               s2 = s1\<lparr>current_packet := (current_packet s1)\<lparr>flags := b\<rparr>, handler_cycle := handler_cycle s1 + 1\<rparr>;
               s3 = (if bit b 6 \<or> bit b 7 then s2\<lparr>discard_packet := 1\<rparr> else s2)
           in (False, if \<not> bit b 3 then s3\<lparr>discard_packet := 1\<rparr> else s3)
      else if handler_cycle s = 1
      then let (b, s1) = read_port 0x60 s
           in (False, s1\<lparr>current_packet := (current_packet s1)\<lparr>x_mov := b\<rparr>, handler_cycle := handler_cycle s1 + 1\<rparr>)
      else if handler_cycle s = 2
      then let (b, s1) = read_port 0x60 s;
               s2 = s1\<lparr>current_packet := (current_packet s1)\<lparr>y_mov := b\<rparr>, handler_cycle := 0\<rparr>
           in if discard_packet s2 \<noteq> 0 then (False, s2\<lparr>discard_packet := 0\<rparr>)
              else (True, mouse_move s2)
      else (False, s))"

definition get_mouse_state :: "'a mouse_scheme \<Rightarrow> MouseState" where
  "get_mouse_state s =
     \<lparr>leftb = left_pressed s, middleb = middle_pressed s, rightb = right_pressed s, ms_x = mouse_x s, ms_y = mouse_y s\<rparr>"

section \<open>The range of the pointer\<close>

text \<open>
  The invariant of the driver: each coordinate is at least 0 and at most the width or height, one past the
  last pixel; the assembler is in one of its three states, and the discard flag is 0 or 1.
\<close>

definition mouse_ok :: "'a mouse_scheme \<Rightarrow> bool" where
  "mouse_ok s \<longleftrightarrow> 0 \<le> sint (mouse_x s) \<and> sint (mouse_x s) \<le> uint (fb_width s) \<and>
     0 \<le> sint (mouse_y s) \<and> sint (mouse_y s) \<le> uint (fb_height s) \<and>
     handler_cycle s \<in> {0, 1, 2} \<and> discard_packet s \<in> {0, 1}"

lemma clamp_bounds: "0 \<le> lim \<Longrightarrow> 0 \<le> clamp lim v \<and> clamp lim v \<le> lim"
  by (simp add: clamp_def)

lemma sint_clamp: "sint (word_of_int (clamp (uint (w :: u16)) v) :: i32) = clamp (uint w) v"
proof -
  have "uint w < 65536" using uint_bounded [of w] by simp
  then show ?thesis
    using clamp_bounds [of "uint w" v] by (simp add: signed_of_int signed_take_bit_int_eq_self)
qed

lemma mouse_move_ok: "mouse_ok s \<Longrightarrow> mouse_ok (mouse_move s)"
  using clamp_bounds [of "uint (fb_width s)"] clamp_bounds [of "uint (fb_height s)"]
  by (simp add: mouse_ok_def mouse_move_def Let_def sint_clamp)

lemma mouse_ok_upd [simp]:
  "mouse_ok (s\<lparr>nreads := n\<rparr>) = mouse_ok s" "mouse_ok (s\<lparr>current_packet := p\<rparr>) = mouse_ok s"
  "mouse_ok (s\<lparr>inport := f\<rparr>) = mouse_ok s"
  by (simp_all add: mouse_ok_def)

lemma drv_mouse_int_ok:
  assumes "mouse_ok s"
  shows "mouse_ok (snd (drv_mouse_int s))"
proof -
  have "mouse_ok (mouse_move (s\<lparr>nreads := n, current_packet := p, handler_cycle := 0\<rparr>))" for n p
    using assms by (intro mouse_move_ok) (simp add: mouse_ok_def)
  then show ?thesis
    using assms by (auto simp: drv_mouse_int_def read_port_def Let_def) (auto simp: mouse_ok_def)
qed

text \<open>A byte from the mouse and the interrupt it raises.\<close>

definition mouse_step :: "'a mouse_scheme \<Rightarrow> u8 \<Rightarrow> 'a mouse_scheme" where
  "mouse_step s b = snd (drv_mouse_int (s\<lparr>inport := \<lambda>_ _. b\<rparr>))"

lemma mouse_step_ok: "mouse_ok s \<Longrightarrow> mouse_ok (mouse_step s b)"
  unfolding mouse_step_def by (rule drv_mouse_int_ok) simp

interpretation mouse: event_machine mouse_step mouse_ok
  by unfold_locales (rule mouse_step_ok)

lemma mouse_step_screen: "fb_width (mouse_step s b) = fb_width s \<and> fb_height (mouse_step s b) = fb_height s"
  by (simp add: mouse_step_def drv_mouse_int_def read_port_def mouse_move_def Let_def)

lemma mouse_run_screen: "fb_width (foldl mouse_step s bs) = fb_width s \<and> fb_height (foldl mouse_step s bs) = fb_height s"
  by (induction bs arbitrary: s) (simp_all add: mouse_step_screen)

section \<open>A whole packet\<close>

definition good_packet :: "u8 \<Rightarrow> bool" where
  "good_packet f \<longleftrightarrow> bit f 3 \<and> \<not> bit f 6 \<and> \<not> bit f 7"

lemma mouse_packet_shape:
  assumes "250 \<le> ticks s" "handler_cycle s = 0" "discard_packet s = 0" "t = foldl mouse_step s [f, dx, dy]"
  shows "handler_cycle t = 0 \<and> discard_packet t = 0 \<and>
    (if good_packet f
     then sint (mouse_x t) = clamp (uint (fb_width s)) (sint (mouse_x s) + movement (bit f 4) dx) \<and>
       sint (mouse_y t) = clamp (uint (fb_height s)) (sint (mouse_y s) - movement (bit f 5) dy) \<and>
       left_pressed t = bit f 0 \<and> right_pressed t = bit f 1 \<and> middle_pressed t = bit f 2
     else get_mouse_state t = get_mouse_state s)"
proof -
  have tk: "\<not> ticks s < 250" using assms(1) by simp
  have "handler_cycle t = 0 \<and> discard_packet t = 0 \<and>
    (if good_packet f
     then mouse_x t = word_of_int (clamp (uint (fb_width s)) (movement (bit f 4) dx + sint (mouse_x s))) \<and>
       mouse_y t = word_of_int (clamp (uint (fb_height s)) (sint (mouse_y s) - movement (bit f 5) dy)) \<and>
       left_pressed t = bit f 0 \<and> right_pressed t = bit f 1 \<and> middle_pressed t = bit f 2
     else get_mouse_state t = get_mouse_state s)"
    using tk assms(2,3)
    by (simp add: assms(4) mouse_step_def drv_mouse_int_def read_port_def mouse_move_def Let_def good_packet_def
        get_mouse_state_def)
  then show ?thesis
    by (simp add: sint_clamp add.commute split: if_splits)
qed

text \<open>
  C19. A packet of three bytes from the start of the assembler's cycle: when its first byte has the
  sync bit and no overflow bit, the pointer moves by the two movements, each coordinate cut to the
  screen, and the buttons are those of the first byte; otherwise position and buttons stay. Either
  way the assembler is back at its start, with nothing to discard.
\<close>

theorem mouse_packet_moves:
  assumes "250 \<le> ticks s" "handler_cycle s = 0" "discard_packet s = 0" "t = foldl mouse_step s [f, dx, dy]"
  shows "handler_cycle t = 0 \<and> discard_packet t = 0 \<and>
    (if good_packet f
     then sint (mouse_x t) = clamp (uint (fb_width s)) (sint (mouse_x s) + movement (bit f 4) dx) \<and>
       sint (mouse_y t) = clamp (uint (fb_height s)) (sint (mouse_y s) - movement (bit f 5) dy) \<and>
       left_pressed t = bit f 0 \<and> right_pressed t = bit f 1 \<and> middle_pressed t = bit f 2
     else get_mouse_state t = get_mouse_state s)"
  using assms by (rule mouse_packet_shape)

text \<open>The far corner is reached: packets that move right and down, from the start of the cycle.\<close>

definition steady :: "'a mouse_scheme \<Rightarrow> bool" where
  "steady s \<longleftrightarrow> 250 \<le> ticks s \<and> handler_cycle s = 0 \<and> discard_packet s = 0"

definition right_down :: "u8 list" where
  "right_down = [0x28, 255, 0x80]"

lemma mouse_step_ticks: "ticks (mouse_step s b) = ticks s"
  by (simp add: mouse_step_def drv_mouse_int_def read_port_def mouse_move_def Let_def)

lemma right_down_step:
  assumes "steady s" "t = foldl mouse_step s right_down"
  shows "steady t" "sint (mouse_x t) = clamp (uint (fb_width s)) (sint (mouse_x s) + 255)"
    "sint (mouse_y t) = clamp (uint (fb_height s)) (sint (mouse_y s) + 128)"
proof -
  have f: "good_packet 0x28" "\<not> bit (0x28 :: u8) 4" "bit (0x28 :: u8) 5"
    by (simp_all add: good_packet_def bit_iff_odd)
  have m: "movement False 255 = 255" "movement True 0x80 = -128" by (simp_all add: movement_def)
  have tk: "ticks t = ticks s" by (simp add: assms(2) right_down_def mouse_step_ticks)
  have "250 \<le> ticks s" "handler_cycle s = 0" "discard_packet s = 0" using assms(1) by (simp_all add: steady_def)
  note P = mouse_packet_shape [OF this, of t "0x28" 255 "0x80", unfolded right_down_def [symmetric], OF assms(2)]
  show "steady t" using P tk assms(1) by (simp add: steady_def)
  show "sint (mouse_x t) = clamp (uint (fb_width s)) (sint (mouse_x s) + 255)"
    "sint (mouse_y t) = clamp (uint (fb_height s)) (sint (mouse_y s) + 128)"
    using P f m by simp_all
qed

lemma right_down_run:
  assumes "steady s" "mouse_ok s" "t = foldl mouse_step s (concat (replicate n right_down))"
  shows "steady t \<and> min (uint (fb_width s)) (128 * int n) \<le> sint (mouse_x t) \<and>
    min (uint (fb_height s)) (128 * int n) \<le> sint (mouse_y t)"
  using assms(3)
proof (induction n arbitrary: t)
  case 0
  then show ?case using assms(1,2) by (simp add: mouse_ok_def)
next
  case (Suc n)
  define u where "u = foldl mouse_step s (concat (replicate n right_down))"
  have t: "t = foldl mouse_step u right_down"
    unfolding Suc.prems u_def replicate_append_same [symmetric] replicate_Suc by simp
  have scr: "fb_width u = fb_width s" "fb_height u = fb_height s"
    unfolding u_def using mouse_run_screen by blast+
  note IH = Suc.IH [OF u_def]
  then have "steady u" by simp
  note R = right_down_step [OF this t]
  have c: "min w (128 * int (Suc n)) \<le> clamp w (x + k)" if "min w (128 * int n) \<le> x" "128 \<le> k" "0 \<le> w" for w x k
    using that by (simp add: clamp_def min_def split: if_splits)
  show ?case using R IH c [of "uint (fb_width s)" "sint (mouse_x u)" 255] c [of "uint (fb_height s)" "sint (mouse_y u)" 128]
    by (simp add: scr)
qed

lemma pixel_at_edge:
  "sint x = uint (fb_width s) \<Longrightarrow> pixel x y c s = s"
  by (simp add: pixel_def)

text \<open>
  C18. The range of the pointer. Whatever bytes the mouse sends, in whatever order, each coordinate stays
  between 0 and the width or height of the screen. The far ends are off by one: both are reached, by some
  stream of bytes, and then the pointer is one past the last column and row, where \<open>pixel\<close> draws nothing.
\<close>

theorem mouse_pointer_range:
  assumes "mouse_ok s" "steady s"
  shows "(\<forall>bs. let t = foldl mouse_step s bs in 0 \<le> sint (mouse_x t) \<and> sint (mouse_x t) \<le> uint (fb_width s) \<and>
      0 \<le> sint (mouse_y t) \<and> sint (mouse_y t) \<le> uint (fb_height s)) \<and>
    (\<exists>bs t. t = foldl mouse_step s bs \<and> sint (mouse_x t) = uint (fb_width s) \<and>
      sint (mouse_y t) = uint (fb_height s) \<and> (\<forall>c. pixel (mouse_x t) (mouse_y t) c t = t))"
proof -
  have bounds: "0 \<le> sint (mouse_x t) \<and> sint (mouse_x t) \<le> uint (fb_width s) \<and>
      0 \<le> sint (mouse_y t) \<and> sint (mouse_y t) \<le> uint (fb_height s)" if "t = foldl mouse_step s bs" for t bs
    using mouse.run_ok [OF assms(1), of bs] mouse_run_screen [of s bs] by (simp add: that mouse_ok_def)
  define t where "t = foldl mouse_step s (concat (replicate 600 right_down))"
  have "uint (fb_width s) < 65536" "uint (fb_height s) < 65536"
    using uint_bounded [of "fb_width s"] uint_bounded [of "fb_height s"] by simp_all
  then have "uint (fb_width s) \<le> sint (mouse_x t)" "uint (fb_height s) \<le> sint (mouse_y t)"
    using right_down_run [OF assms(2,1) t_def] by simp_all
  then have corner: "sint (mouse_x t) = uint (fb_width s)" "sint (mouse_y t) = uint (fb_height s)"
    using bounds [OF t_def] by simp_all
  have "fb_width t = fb_width s" unfolding t_def using mouse_run_screen by blast
  then have "pixel (mouse_x t) (mouse_y t) c t = t" for c
    using corner(1) by (intro pixel_at_edge) simp
  then show ?thesis
    using bounds corner t_def unfolding Let_def by blast
qed

text \<open>
  The movement a PS/2 mouse reports: the byte with the sign flag as the ninth bit of a
  two's-complement number.
\<close>

definition ps2_delta :: "bool \<Rightarrow> u8 \<Rightarrow> int" where
  "ps2_delta neg mov = uint mov - (if neg then 256 else 0)"

lemma movement_ps2:
  "movement neg mov = ps2_delta neg mov + (if neg \<and> mov < 128 then 256 else 0)"
proof -
  have "sint mov = (if mov < 128 then uint mov else uint mov - 256)"
  proof (cases "mov < 128")
    case True
    then have "unat mov < 128" by (simp add: word_less_nat_alt)
    then show ?thesis using True sint_ascii [of mov] by simp
  next
    case False
    then have "128 \<le> uint mov" "uint mov < 256"
      using uint_bounded [of mov] by (simp_all add: word_less_def)
    moreover from this have "uint mov div 128 = 1" by presburger
    moreover have "sint mov = signed_take_bit 7 (uint mov)"
      by (simp only: sint_uint) simp
    ultimately show ?thesis
      using False by (simp add: signed_take_bit_eq_take_bit_minus take_bit_int_eq_self bit_iff_odd)
  qed
  then show ?thesis by (simp add: movement_def ps2_delta_def)
qed

text \<open>
  Fast movements to the left or down are misread. For a good packet the horizontal position
  follows the reported movement, except when the sign flag comes with a byte below 128 (a movement of
  more than 128 to the left), where the driver adds 256 and the pointer jumps the other way.
\<close>

lemma mouse_misreads_fast_moves:
  assumes "250 \<le> ticks s" "handler_cycle s = 0" "discard_packet s = 0" "good_packet f"
  shows "sint (mouse_x (foldl mouse_step s [f, dx, dy])) =
    clamp (uint (fb_width s))
      (sint (mouse_x s) + ps2_delta (bit f 4) dx + (if bit f 4 \<and> dx < 128 then 256 else 0))"
  using mouse_packet_shape [OF assms(1-3) refl, of f dx dy] assms(4) by (simp add: movement_ps2 add.assoc)

definition mouse_sample :: mouse where
  "mouse_sample = tasks.extend (sched_sample\<lparr>ticks := 250\<rparr>)
     \<lparr>isShift = False, isCtrl = False, isAlt = False, isLock = False, mouse_x = 8, mouse_y = 16,
      left_pressed = False, right_pressed = False, middle_pressed = False, handler_cycle = 0,
      current_packet = \<lparr>flags = 0, x_mov = 0, y_mov = 0\<rparr>, discard_packet = 0\<rparr>"

lemma mouse_sample_simps [simp]:
  "ticks mouse_sample = 250" "mouse_x mouse_sample = 8" "mouse_y mouse_sample = 16" "handler_cycle mouse_sample = 0"
  "discard_packet mouse_sample = 0" "fb_width mouse_sample = 16" "fb_height mouse_sample = 32"
  "isShift mouse_sample = False" "isLock mouse_sample = False"
  by (simp_all add: mouse_sample_def tasks.defs sched_sample_def vmm.defs paging_sample_def pmm.defs pmm_sample_def)

lemma mouse_ok_sample: "mouse_ok mouse_sample"
  by (simp add: mouse_ok_def)

theorem mouse_pointer_range_witness:
  "sint (mouse_x (foldl mouse_step mouse_sample [0x08, 200, 0])) \<le> 16 \<and>
   (\<exists>bs. sint (mouse_x (foldl mouse_step mouse_sample bs)) = 16)"
proof -
  have "steady mouse_sample" by (simp add: steady_def)
  note R = mouse_pointer_range [OF mouse_ok_sample this, unfolded Let_def]
  have "sint (mouse_x (foldl mouse_step mouse_sample [0x08, 200, 0])) \<le> 16"
    using conjunct1 [OF R, THEN spec, of "[0x08, 200, 0]"] by simp
  then show ?thesis using conjunct2 [OF R] by auto
qed

lemma good_packet_8: "good_packet 0x08" "good_packet 0x18" "\<not> bit (0x08 :: u8) 4" "bit (0x18 :: u8) 4" "\<not> bit (0x08 :: u8) 5"
  by (simp_all add: good_packet_def bit_iff_odd)

theorem mouse_packet_moves_witness:
  "sint (mouse_x (foldl mouse_step mouse_sample [0x08, 3, 5])) = 11 \<and>
   sint (mouse_y (foldl mouse_step mouse_sample [0x08, 3, 5])) = 11"
  using mouse_packet_moves [of mouse_sample, OF _ _ _ refl, of "0x08" 3 5]
  by (simp add: good_packet_8 movement_def clamp_def)

lemma mouse_misreads_fast_moves_witness:
  "ps2_delta (bit (0x18 :: u8) 4) 0x05 = -251 \<and> sint (mouse_x (foldl mouse_step mouse_sample [0x18, 0x05, 0])) = 13"
  using mouse_misreads_fast_moves [of mouse_sample "0x18" "0x05" 0]
  by (simp add: good_packet_8 ps2_delta_def clamp_def)

section \<open>The start-up of the controller\<close>

lemma mouse_wait_loop_reads: "\<exists>n\<le>k. mouse_wait_loop k type s = s\<lparr>nreads := nreads s + n\<rparr>"
proof (induction k arbitrary: s)
  case (Suc k)
  show ?case
  proof (cases "if type = 0 then inport s (nreads s) 0x64 AND 1 \<noteq> 0 else inport s (nreads s) 0x64 AND 2 = 0")
    case True
    then show ?thesis
      by (intro exI [of _ 1]) (auto simp: read_port_def Let_def split: if_splits)
  next
    case False
    obtain n where "n \<le> k" "mouse_wait_loop k type (s\<lparr>nreads := Suc (nreads s)\<rparr>) = s\<lparr>nreads := Suc (nreads s) + n\<rparr>"
      using Suc.IH [of "s\<lparr>nreads := Suc (nreads s)\<rparr>"] by auto
    then show ?thesis
      using False by (intro exI [of _ "Suc n"]) (auto simp: read_port_def Let_def split: if_splits)
  qed
qed (intro exI [of _ 0], simp)

lemma mouse_wait_reads:
  obtains n where "n \<le> 100000" "mouse_wait type s = s\<lparr>nreads := nreads s + n\<rparr>"
  using mouse_wait_loop_reads [of 100000 type s] by (auto simp: mouse_wait_def)

lemma mouse_wait_outs [simp]: "outs (mouse_wait type s) = outs s"
  by (rule mouse_wait_reads [of type s]) simp

lemma mouse_read_outs [simp]: "outs (snd (mouse_read s)) = outs s"
  by (simp add: mouse_read_def read_port_def)

lemma write_port_outs [simp]: "outs (write_port p v s) = outs s @ [(p, v)]"
  by (simp add: write_port_def)

lemma mouse_write_outs [simp]: "outs (mouse_write v s) = outs s @ [(0x64, 0xd4), (0x60, v)]"
  by (simp add: mouse_write_def)

text \<open>
  C31. The start-up dialogue with the controller, whatever it answers: it always ends, with exactly
  these port writes in this order, where the configuration byte written back has the mouse interrupt
  enabled and the mouse clock on.
\<close>

theorem init_mouse_dialogue:
  "\<exists>c. outs (init_mouse s) = outs s @ [(0x64, 0xa8), (0x64, 0x20), (0x64, 0x60), (0x60, c), (0x64, 0xd4), (0x60, 0xff),
      (0x64, 0xd4), (0x60, 0xf6), (0x64, 0xd4), (0x60, 0xf4)] \<and> bit c 1 \<and> \<not> bit c 5"
proof -
  obtain c u where c: "mouse_read (write_port 0x64 0x20 (mouse_wait 1 (write_port 0x64 0xa8 (mouse_wait 1
      (s\<lparr>mouse_x := ucast (fb_width s div 2), mouse_y := ucast (fb_height s div 2)\<rparr>))))) = (c, u)" by fastforce
  have "outs u = outs s @ [(0x64, 0xa8), (0x64, 0x20)]"
    using mouse_read_outs [of "write_port 0x64 0x20 (mouse_wait 1 (write_port 0x64 0xa8 (mouse_wait 1
      (s\<lparr>mouse_x := ucast (fb_width s div 2), mouse_y := ucast (fb_height s div 2)\<rparr>))))"] by (simp add: c)
  moreover have "bit ((c OR 2) AND NOT 0x20) 1 \<and> \<not> bit ((c OR 2) AND NOT 0x20) 5"
  proof -
    have "bit (2 :: u8) 1" "\<not> bit (2 :: u8) 5" "\<not> bit (0x20 :: u8) 1" "bit (0x20 :: u8) 5"
      by (simp_all add: bit_iff_odd)
    then show ?thesis
      by (simp only: bit_or_iff bit_and_iff bit_not_iff possible_bit_word) simp
  qed
  ultimately show ?thesis
    unfolding init_mouse_def Let_def c prod.case
    by (intro exI [of _ "(c OR 2) AND NOT 0x20"])
      (simp only: mouse_read_outs mouse_write_outs mouse_wait_outs write_port_outs append_assoc append.simps simp_thms)
qed
end
