(* ===== verification/Interrupts.thy ===== *)
theory Interrupts
  imports Mouse
begin

text \<open>
  \<open>drivers/interrupts.c\<close>, \<open>drivers/poweroff.c\<close> and the two callbacks of \<open>kernel.c\<close> that the handlers
  call. The record adds the interrupt descriptor table, the \<open>IDT\<close> operand of \<open>lidt\<close> and \<open>xytest\<close>.
  \<open>except\<close> and \<open>panicked\<close> are in \<open>Panic\<close>. The entry stubs are assembly: \<open>isr n\<close>, the address of
  \<open>interrupt_handler_n\<close>, and \<open>idt_base\<close>, the address of the table, are parameters.
\<close>

record IDTDescriptor =
  offset_low :: u16
  segment_selector :: u16
  ist :: u8
  gate_type :: u8
  offset_mid :: u16
  offset_high :: u32
  gate_reserved :: u32

record intr = mouse +
  idt_descriptors :: "IDTDescriptor list"
  idt_size :: u16
  idt_address :: u64
  mouseDone :: bool
  xytest :: u32

section \<open>The interrupt controllers\<close>

definition pic_ack :: "u32 \<Rightarrow> 'a machine_scheme \<Rightarrow> 'a machine_scheme" where
  "pic_ack interrupt s = write_port 0x20 0x20 (if interrupt \<ge> 40 then write_port 0xA0 0x20 s else s)"

definition pic_remap :: "i32 \<Rightarrow> i32 \<Rightarrow> 'a machine_scheme \<Rightarrow> 'a machine_scheme" where
  "pic_remap offset1 offset2 s =
     (fold (\<lambda>(p, v). write_port p v)
        [(0x20, 0x10 + 0x01), (0xA0, 0x10 + 0x01), (0x21, ucast offset1), (0xA1, ucast offset2), (0x21, 4), (0xA1, 2),
         (0x21, 0x01), (0xA1, 0x01), (0x21, 0), (0xA1, 0)] s)\<lparr>iflag := True\<rparr>"

section \<open>The descriptor table\<close>

definition INT_DESC_COUNT :: nat where "INT_DESC_COUNT = 256"

definition make_desc :: "u8 \<Rightarrow> u64 \<Rightarrow> IDTDescriptor" where
  "make_desc ty address =
     \<lparr>offset_low = ucast (address AND 0xFFFF), segment_selector = 0x28, ist = 0, gate_type = ty,
      offset_mid = ucast (drop_bit 16 address AND 0xFFFF), offset_high = ucast (drop_bit 32 address AND 0xFFFFFFFF),
      gate_reserved = 0\<rparr>"

definition init_int_desc :: "nat \<Rightarrow> u64 \<Rightarrow> 'a intr_scheme \<Rightarrow> 'a intr_scheme" where
  "init_int_desc index address s = s\<lparr>idt_descriptors := (idt_descriptors s)[index := make_desc 0x8E address]\<rparr>"

definition init_uint_desc :: "nat \<Rightarrow> u64 \<Rightarrow> 'a intr_scheme \<Rightarrow> 'a intr_scheme" where
  "init_uint_desc index address s = s\<lparr>idt_descriptors := (idt_descriptors s)[index := make_desc 0xEE address]\<rparr>"

definition install_idt :: "(nat \<Rightarrow> u64) \<Rightarrow> u64 \<Rightarrow> 'a intr_scheme \<Rightarrow> 'a intr_scheme" where
  "install_idt isr idt_base s =
     (let s1 = init_int_desc 32 (isr 32) s;
          s2 = init_int_desc 33 (isr 33) s1;
          s3 = init_int_desc 44 (isr 44) s2;
          s4 = init_int_desc 41 (isr 44) s3;
          s5 = init_int_desc 0 (isr 0) s4;
          s6 = init_int_desc 4 (isr 4) s5;
          s7 = init_int_desc 6 (isr 6) s6;
          s8 = init_int_desc 8 (isr 8) s7;
          s9 = init_int_desc 14 (isr 14) s8;
          s10 = init_uint_desc 128 (isr 128) s9;
          s11 = s10\<lparr>idt_address := idt_base, idt_size := of_nat (16 * INT_DESC_COUNT)\<rparr>;
          s12 = s11\<lparr>idtr := (idt_size s11, idt_address s11)\<rparr>
      in pic_remap 0x20 0x28 s12)"

section \<open>The callbacks of \<open>kernel.c\<close>\<close>

definition keyboard_int :: "u8 \<Rightarrow> 'a intr_scheme \<Rightarrow> 'a intr_scheme" where
  "keyboard_int c s =
     (if c \<noteq> KEY_BCK
      then let s1 = printc (ucast (xytest s)) 0 c 0xff00ff 0 s in s1\<lparr>xytest := xytest s1 + 1\<rparr>
      else if xytest s > 0
      then let s1 = s\<lparr>xytest := xytest s - 1\<rparr> in printc (ucast (xytest s1)) 0 0x20 0xff00ff 0 s1
      else s)"

definition mouse_int :: "MouseState \<Rightarrow> 'a vga_scheme \<Rightarrow> 'a vga_scheme" where
  "mouse_int state s = (if leftb state then pixel (ms_x state) (ms_y state) 0xffffff s else s)"

section \<open>The handlers\<close>

text \<open>
  \<open>drivers/poweroff.c\<close>. Frame 0, which \<open>pmm_init\<close> never hands out, holds no page tables: once it is
  loaded as the root table the next instruction cannot be fetched, nor can any handler of the fault, and
  the processor resets. The \<open>printc\<close> after the load is never reached.
\<close>

definition reboot :: "'a pmm_scheme \<Rightarrow> (unit, 'a pmm_scheme) outcome" where
  "reboot s = bind_outcome (write_cr3 0 s) (\<lambda>_ t. Restarted)"

text \<open>\<open>keyboardc\<close> is a signed \<open>char\<close>, so \<open>< 0x7f\<close> lets 0x80 to 0xff pass.\<close>

definition interrupt_handler :: "u32 \<Rightarrow> u32 \<Rightarrow> 'a intr_scheme \<Rightarrow> (unit, 'a intr_scheme) outcome" where
  "interrupt_handler interrupt errorcode s =
     (let buf = locals s ''interrupt_handler.errorcodeSTR'';
          s1 = uitoa_st (ucast errorcode) buf 16 s;
          show_code = (\<lambda>t. prints 0 2 (c_text t buf 32) 0xff0000 0xff t);
          r = (if interrupt = 0 then except (lit ''DIVIDE ERROR'') s1
               else if interrupt = 4 then except (lit ''OVERFLOW'') (show_code s1)
               else if interrupt = 6 then except (lit ''UNDEFINED OPCODE'') s1
               else if interrupt = 8 then except (lit ''DOUBLE FAULT'') s1
               else if interrupt = 13 then except (lit ''GE.PR. FAULT'') (show_code s1)
               else if interrupt = 14 then
                 (let s2 = show_code s1;
                      s3 = uitoa_st (read_cr2 s2) (hhdm s2) 16 s2;
                      s4 = prints 0 3 (c_text s3 (hhdm s3) 65) 0xff0000 0xff s3
                  in except (lit ''PAGE FAULT'') s4)
               else if interrupt = 33 then
                 bind_outcome (if panicked s1 then reboot s1 else Ret () s1) (\<lambda>_ s2.
                   bind_outcome (drv_keyboard_int s2) (\<lambda>keyboardc s3.
                     Ret () (if keyboardc \<noteq> 0 \<and> sint keyboardc < 0x7f then keyboard_int keyboardc s3 else s3)))
               else if interrupt = 44 then
                 (let (d, s2) = drv_mouse_int s1; s3 = s2\<lparr>mouseDone := d\<rparr>
                  in Ret () (if mouseDone s3 then mouse_int (get_mouse_state s3) s3 else s3))
               else except (lit ''UNKNOWN INTERRUPT'') s1)
      in bind_outcome r (\<lambda>_ t. Ret () (pic_ack interrupt t)))"

text \<open>The system call from user mode: \<open>type\<close>, \<open>v1\<close> and \<open>v2\<close> are the caller's registers.\<close>

definition syscall_handler :: "u64 \<Rightarrow> u64 \<Rightarrow> u64 \<Rightarrow> 'a vga_scheme \<Rightarrow> 'a vga_scheme" where
  "syscall_handler type v1 v2 s =
     (if type = 0 then printc 0 (ucast v1) (ucast v2) 0xffffff 0 s else s)"

section \<open>The descriptor table against the processor's reading of it\<close>

text \<open>Intel SDM 6.14: an entry's target, and its present bit, privilege level and gate type.\<close>

definition gate_target :: "IDTDescriptor \<Rightarrow> u64" where
  "gate_target d = ucast (offset_low d) OR push_bit 16 (ucast (offset_mid d)) OR push_bit 32 (ucast (offset_high d))"

definition gate_present :: "IDTDescriptor \<Rightarrow> bool" where
  "gate_present d = bit (gate_type d) 7"

definition gate_dpl :: "IDTDescriptor \<Rightarrow> u8" where
  "gate_dpl d = drop_bit 5 (gate_type d) AND 3"

lemma gate_target_make_desc: "gate_target (make_desc ty a) = a"
proof (rule bit_word_eqI)
  fix n
  assume n: "n < LENGTH(64)"
  have m: "(0xFFFF :: u64) = mask 16" "(0xFFFFFFFF :: u64) = mask 32"
    by (simp_all add: mask_eq_exp_minus_1)
  show "bit (gate_target (make_desc ty a)) n = bit a n"
    unfolding gate_target_def make_desc_def m using n
    by (cases "n < 16"; cases "n < 32")
      (simp_all add: bit_or_iff bit_and_iff bit_push_bit_iff bit_ucast_iff bit_drop_bit_eq bit_mask_iff, arith+)
qed

lemma length_init_desc [simp]:
  "length (idt_descriptors (init_int_desc i a s)) = length (idt_descriptors s)"
  "length (idt_descriptors (init_uint_desc i a s)) = length (idt_descriptors s)"
  by (simp_all add: init_int_desc_def init_uint_desc_def)

lemma nth_init_desc:
  "v < length (idt_descriptors s) \<Longrightarrow>
    idt_descriptors (init_int_desc i a s) ! v = (if v = i then make_desc 0x8E a else idt_descriptors s ! v)"
  "v < length (idt_descriptors s) \<Longrightarrow>
    idt_descriptors (init_uint_desc i a s) ! v = (if v = i then make_desc 0xEE a else idt_descriptors s ! v)"
  by (simp_all add: init_int_desc_def init_uint_desc_def nth_list_update)

lemma pic_remap_fields:
  "outs (pic_remap a b s) = outs s @ [(0x20, 0x11), (0xA0, 0x11), (0x21, ucast a), (0xA1, ucast b), (0x21, 4), (0xA1, 2),
     (0x21, 1), (0xA1, 1), (0x21, 0), (0xA1, 0)]"
  "iflag (pic_remap a b s)" "idtr (pic_remap a b s) = idtr s"
  by (simp_all add: pic_remap_def write_port_def)

lemma pic_remap_idt: "idt_descriptors (pic_remap a b s) = idt_descriptors s"
  by (simp add: pic_remap_def write_port_def)

definition kernel_vectors :: "nat set" where
  "kernel_vectors = {0, 4, 6, 8, 14, 32, 33, 44}"

lemma install_idt_nth:
  assumes "length (idt_descriptors s) = 256" "v < 256"
  shows "idt_descriptors (install_idt isr b s) ! v =
    (if v \<in> kernel_vectors then make_desc 0x8E (isr v) else if v = 41 then make_desc 0x8E (isr 44)
     else if v = 128 then make_desc 0xEE (isr 128) else idt_descriptors s ! v)"
  using assms by (simp add: install_idt_def Let_def pic_remap_idt nth_init_desc kernel_vectors_def)

text \<open>
  C32. What \<open>install_idt\<close> installs, as the processor reads it: the entry of each of the eight kernel
  vectors is a present interrupt gate for ring 0 to that vector's stub, vector 41 leads to the mouse
  stub, vector 128 is a gate open to ring 3, and every other entry keeps what it held, so that vector 13,
  which \<open>interrupt_handler\<close> has a case for, gets no gate. Interrupts are on afterwards, the
  controllers deliver at vectors 32 and 40 with nothing masked, and the limit loaded is 4096.
\<close>

theorem install_idt_gates:
  assumes "length (idt_descriptors s) = 256" "t = install_idt isr b s"
  shows "(\<forall>v\<in>kernel_vectors. gate_target (idt_descriptors t ! v) = isr v \<and> gate_present (idt_descriptors t ! v) \<and>
      gate_dpl (idt_descriptors t ! v) = 0) \<and>
    gate_target (idt_descriptors t ! 41) = isr 44 \<and>
    gate_target (idt_descriptors t ! 128) = isr 128 \<and> gate_dpl (idt_descriptors t ! 128) = 3 \<and>
    (\<forall>v<256. v \<notin> kernel_vectors \<union> {41, 128} \<longrightarrow> idt_descriptors t ! v = idt_descriptors s ! v) \<and>
    13 \<notin> kernel_vectors \<and> iflag t \<and> idtr t = (4096, b) \<and>
    outs t = outs s @ [(0x20, 0x11), (0xA0, 0x11), (0x21, 32), (0xA1, 40), (0x21, 4), (0xA1, 2),
      (0x21, 1), (0xA1, 1), (0x21, 0), (0xA1, 0)]"
proof -
  have ty: "gate_type (make_desc ty a) = ty" for ty a by (simp add: make_desc_def)
  have nth: "idt_descriptors t ! v =
    (if v \<in> kernel_vectors then make_desc 0x8E (isr v) else if v = 41 then make_desc 0x8E (isr 44)
     else if v = 128 then make_desc 0xEE (isr 128) else idt_descriptors s ! v)" if "v < 256" for v
    unfolding assms(2) using assms(1) that by (rule install_idt_nth)
  have k: "v < 256" if "v \<in> kernel_vectors" for v using that by (auto simp: kernel_vectors_def)
  have "\<forall>v\<in>kernel_vectors. gate_target (idt_descriptors t ! v) = isr v \<and> gate_present (idt_descriptors t ! v) \<and>
      gate_dpl (idt_descriptors t ! v) = 0"
    using nth k by (simp add: gate_target_make_desc gate_present_def gate_dpl_def ty bit_iff_odd)
  moreover have "iflag t \<and> idtr t = (4096, b) \<and>
    outs t = outs s @ [(0x20, 0x11), (0xA0, 0x11), (0x21, 32), (0xA1, 40), (0x21, 4), (0xA1, 2),
      (0x21, 1), (0xA1, 1), (0x21, 0), (0xA1, 0)]"
    unfolding assms(2) install_idt_def Let_def
    by (simp add: pic_remap_fields INT_DESC_COUNT_def) (simp add: init_int_desc_def init_uint_desc_def)
  ultimately show ?thesis
    by (simp add: nth gate_target_make_desc gate_dpl_def ty kernel_vectors_def)
qed

definition intr_sample :: intr where
  "intr_sample = keyboard.extend (tasks.extend (sched_sample\<lparr>ticks := 250\<rparr>)
      \<lparr>isShift = False, isCtrl = False, isAlt = False, isLock = False\<rparr>)
     \<lparr>mouse_x = 8, mouse_y = 16, left_pressed = False, right_pressed = False, middle_pressed = False, handler_cycle = 0,
      current_packet = \<lparr>flags = 0, x_mov = 0, y_mov = 0\<rparr>, discard_packet = 0,
      idt_descriptors = replicate 256 (make_desc 0 0), idt_size = 0, idt_address = 0, mouseDone = False, xytest = 0\<rparr>"

lemma intr_sample_simps [simp]:
  "idt_descriptors intr_sample = replicate 256 (make_desc 0 0)" "processnum intr_sample = 3"
  "ticks intr_sample = 250" "process intr_sample = 2" "processes intr_sample = replicate 100 0x7FFFF50"
  "processesinfo intr_sample = replicate 100 \<lparr>pi_cr3 = 0x1000\<rparr>"
  "panicked intr_sample = False" "fb_width intr_sample = 16" "fb_height intr_sample = 32"
  "xlat intr_sample = (\<lambda>_ a. a)" "fb_addr intr_sample = 0x100000" "fb_pitch intr_sample = 64"
  by (simp_all add: intr_sample_def keyboard.defs tasks.defs sched_sample_def vmm.defs paging_sample_def pmm.defs pmm_sample_def)

theorem install_idt_gates_witness:
  "gate_target (idt_descriptors (install_idt (\<lambda>n. 0x8000 + of_nat n) 0x9000 intr_sample) ! 14) = 0x800E"
  using install_idt_gates [of intr_sample, OF _ refl, of "\<lambda>n. 0x8000 + of_nat n" "0x9000"]
  by (simp add: kernel_vectors_def)

section \<open>Which interrupts return\<close>

lemma pic_ack_outs: "outs (pic_ack v s) = outs s @ (if v \<ge> 40 then [(0xA0, 0x20)] else []) @ [(0x20, 0x20)]"
  by (simp add: pic_ack_def)

lemma drv_keyboard_int_returns: "\<exists>c t. drv_keyboard_int s = Ret c t"
  using drv_keyboard_int_step [of s] by blast

lemma ALIGN_0 [simp]: "ALIGN 0 = 0"
  by (simp add: ALIGN_def)

lemma reboot_restarts [simp]: "reboot s = Restarted"
  by (simp add: reboot_def write_cr3_def)

lemma interrupt_handler_restarts: "panicked s \<Longrightarrow> interrupt_handler 33 errorcode s = Restarted"
  using same_but_mem_sys [of s "uitoa_st (ucast errorcode) (locals s ''interrupt_handler.errorcodeSTR'') 16 s"]
  by (simp add: interrupt_handler_def Let_def)

lemma interrupt_handler_returns:
  assumes "v = 33 \<and> \<not> panicked s \<or> v = 44"
  shows "\<exists>t. interrupt_handler v errorcode s = Ret () (pic_ack v t)"
  using assms
proof
  assume v: "v = 33 \<and> \<not> panicked s"
  let ?s = "uitoa_st (ucast errorcode) (locals s ''interrupt_handler.errorcodeSTR'') 16 s"
  obtain c t where "drv_keyboard_int ?s = Ret c t"
    using drv_keyboard_int_returns by blast
  moreover have "\<not> panicked ?s" using v same_but_mem_sys [of s ?s] by simp
  ultimately show ?thesis
    using v by (auto simp: interrupt_handler_def Let_def)
next
  assume v: "v = 44"
  obtain d u where "drv_mouse_int (uitoa_st (ucast errorcode) (locals s ''interrupt_handler.errorcodeSTR'') 16 s) = (d, u)"
    by fastforce
  then show ?thesis
    by (auto simp: interrupt_handler_def v Let_def)
qed

lemma bind_except [simp]: "bind_outcome (except str s) f = except str s"
  by (simp add: except_def Let_def)

lemma interrupt_handler_stops:
  assumes "v \<noteq> 33" "v \<noteq> 44"
  shows "\<exists>str t. interrupt_handler v errorcode s = except str t"
proof -
  consider "v = 0" | "v = 4" | "v = 6" | "v = 8" | "v = 13" | "v = 14" | "v \<notin> {0, 4, 6, 8, 13, 14}"
    by blast
  then show ?thesis
    by cases (use assms in \<open>simp_all add: interrupt_handler_def Let_def\<close>, blast+)
qed

text \<open>
  C33. The dispatcher, on every vector and in every state. The mouse vector returns, and the last port
  writes are the end-of-interrupt to the slave and to the master controller. The keyboard vector
  restarts the machine when the kernel has panicked; otherwise it returns, after an end-of-interrupt to
  the master. Every other vector stops the machine in the panic state, with no process registered.
\<close>

theorem interrupt_handler_dispatch:
  "if v = 33 \<and> panicked s then interrupt_handler v errorcode s = Restarted
   else if v = 33 \<or> v = 44
   then \<exists>t os. interrupt_handler v errorcode s = Ret () t \<and>
     outs t = os @ (if v = 44 then [(0xA0, 0x20)] else []) @ [(0x20, 0x20)]
   else \<exists>t. interrupt_handler v errorcode s = Halted t \<and> panicked t \<and> processnum t = 0"
proof -
  consider "v = 33" "panicked s" | "v = 33 \<and> \<not> panicked s \<or> v = 44" | "v \<noteq> 33" "v \<noteq> 44" by blast
  then show ?thesis
  proof cases
    case 1
    then show ?thesis by (simp add: interrupt_handler_restarts)
  next
    case 2
    then obtain t where "interrupt_handler v errorcode s = Ret () (pic_ack v t)"
      using interrupt_handler_returns by blast
    then show ?thesis
      using 2 by (auto simp: pic_ack_outs)
  next
    case 3
    then obtain str t where "interrupt_handler v errorcode s = except str t"
      using interrupt_handler_stops by blast
    then show ?thesis
      using 3 by (simp add: except_def Let_def)
  qed
qed

section \<open>The system call\<close>

lemma write_port_mem [simp]: "mem (write_port p v s) = mem s"
  by (simp add: write_port_def)

text \<open>Drawing leaves a byte as it was or makes it a byte of one of the two colours.\<close>

lemma st_bytes_value: "st_bytes tr m a bs p \<in> set bs \<or> st_bytes tr m a bs p = m p"
proof (induction bs arbitrary: m a)
  case (Cons b bs)
  have "st8 tr m a b p = (if p = tr a then b else m p)" by (simp add: st8_def)
  then show ?case
    using Cons.IH [of "st8 tr m a b" "a + 1"] unfolding st_bytes.simps list.set by auto
qed simp

lemma st_bytes_covers: "bs \<noteq> [] \<Longrightarrow> st_bytes tr m a bs (tr a) \<in> set bs"
  using st_bytes_value [of tr "st8 tr m a (hd bs)" "a + 1" "tl bs" "tr a"]
  by (cases bs) (auto simp: st8_def)

definition colour_bytes :: "u32 \<Rightarrow> u32 \<Rightarrow> u8 set" where
  "colour_bytes att bg = set (le_bytes 4 att) \<union> set (le_bytes 4 bg)"

lemma pixel_value:
  "c \<in> {att, bg} \<Longrightarrow> mem (pixel x y c s) p \<in> colour_bytes att bg \<or> mem (pixel x y c s) p = mem s p"
  using st_bytes_value [of "vtr s" "mem s" _ "le_bytes 4 c" p]
  by (auto simp: pixel_def store32_def st32_def colour_bytes_def)

lemma pixel_covers:
  assumes "sint x < uint (fb_width s)" "sint y < uint (fb_height s)" "c \<in> {att, bg}"
  shows "mem (pixel x y c s) (vtr s (fb_addr s + 4 * (scast y * (ucast (fb_pitch s) div 4) + scast x))) \<in> colour_bytes att bg"
proof -
  have ne: "le_bytes 4 c \<noteq> []" by (metis length_le_bytes list.size(3) zero_neq_numeral)
  show ?thesis
    using st_bytes_covers [OF ne] assms by (auto simp: pixel_def store32_def st32_def colour_bytes_def)
qed

lemma printc_cols_value:
  "mem (printc_cols n ch i att bg cx cy s) p \<in> colour_bytes att bg \<or> mem (printc_cols n ch i att bg cx cy s) p = mem s p"
proof (induction n arbitrary: cx s)
  case (Suc n)
  let ?t = "if bit (font_byte s ch i) n then pixel cx cy att s else if bg = noback then s else pixel cx cy bg s"
  have "mem ?t p \<in> colour_bytes att bg \<or> mem ?t p = mem s p"
    using pixel_value [of att att bg cx cy s p] pixel_value [of bg att bg cx cy s p] by auto
  then show ?case
    using Suc.IH [of "cx + 1" ?t] by auto
qed simp

lemma printc_cols_covers:
  assumes "sint cx < uint (fb_width s)" "sint cy < uint (fb_height s)" "bg \<noteq> noback"
  shows "mem (printc_cols (Suc n) ch i att bg cx cy s)
    (vtr s (fb_addr s + 4 * (scast cy * (ucast (fb_pitch s) div 4) + scast cx))) \<in> colour_bytes att bg"
proof -
  let ?t = "if bit (font_byte s ch i) n then pixel cx cy att s else if bg = noback then s else pixel cx cy bg s"
  let ?p = "vtr s (fb_addr s + 4 * (scast cy * (ucast (fb_pitch s) div 4) + scast cx))"
  have "mem ?t ?p \<in> colour_bytes att bg"
    using pixel_covers [OF assms(1,2), of att att bg] pixel_covers [OF assms(1,2), of bg att bg] assms(3) by auto
  then show ?thesis
    using printc_cols_value [of n ch i att bg "cx + 1" cy ?t ?p] by auto
qed

text \<open>
  C34. A user program can write outside the screen: \<open>printc\<close> and \<open>pixel\<close> do not check for negative
  coordinates and \<open>syscall_handler\<close> does not check its argument, so the system call with the row
  argument \<open>-1\<close> overwrites memory before the framebuffer, whatever was there: one row above the
  screen the byte becomes \<open>0\<close> or \<open>0xff\<close>.
\<close>

theorem syscall_writes_above_screen:
  assumes "0 < fb_width s" "t = syscall_handler 0 0xFFFFFFFFFFFFFFFF v2 s"
  shows "mem t (vtr s (fb_addr s - 4 * (ucast (fb_pitch s) div 4))) \<in> {0, 0xff}"
proof -
  let ?row = "\<lambda>i. printc_cols 8 (ucast v2) i 0xffffff 0 (0 * 8) (-1 * 16 + of_nat i)"
  define w where "w = fold ?row [0..<15] s"
  have same: "same_but_io s w"
    unfolding w_def by (intro same_but_mem_io same_but_mem_fold printc_cols_same)
  have eq: "fb_width w = fb_width s" "fb_addr w = fb_addr s" "fb_pitch w = fb_pitch s" "vtr w = vtr s"
    using same_but_io_vga [OF same] same_but_io_machine [OF same] by simp_all
  have u: "(ucast (0xFFFFFFFFFFFFFFFF :: u64) :: i32) = -1" by simp
  have "t = write_port 0xE9 (ucast v2) (fold ?row [0..<Suc 15] s)"
    unfolding assms(2) syscall_handler_def printc_def u
    by (simp only: refl if_True numeral_eq_Suc pred_numeral_simps arith_simps)
  then have "mem t = mem (?row 15 w)" unfolding fold_upt_Suc w_def by (simp only: write_port_mem)
  also have "?row 15 w = printc_cols (Suc 7) (ucast v2) 15 0xffffff 0 0 (-1) w" by simp
  finally have t: "mem t = mem (printc_cols (Suc 7) (ucast v2) 15 0xffffff 0 0 (-1) w)" .
  have addr: "fb_addr s + 4 * (scast (-1 :: i32) * (ucast (fb_pitch s) div 4) + scast (0 :: i32)) =
      fb_addr s - 4 * (ucast (fb_pitch s) div 4)"
    by simp
  have x: "sint (0 :: i32) < uint (fb_width w)" using assms(1) by (simp add: eq word_less_def)
  have y: "sint (-1 :: i32) < uint (fb_height w)"
  proof -
    have "sint (-1 :: i32) < 0" by simp
    also have "0 \<le> uint (fb_height w)" by (rule uint_ge_0)
    finally show ?thesis .
  qed
  have "mem t (vtr s (fb_addr s + 4 * (scast (-1 :: i32) * (ucast (fb_pitch s) div 4) + scast (0 :: i32)))) \<in> colour_bytes 0xffffff 0"
    unfolding t by (rule printc_cols_covers [OF x y, unfolded eq]) (simp add: noback_def)
  moreover have "colour_bytes 0xffffff 0 = {0, 0xff}"
  proof -
    have b: "(65535 :: u8) = 255" "(16777215 :: u8) = 255" by simp_all
    show ?thesis
      by (simp add: colour_bytes_def le_bytes_def upt_rec insert_commute) (simp only: b insert_absorb2)
  qed
  ultimately show ?thesis
    unfolding addr by simp
qed

theorem syscall_writes_above_screen_witness:
  "mem (syscall_handler 0 0xFFFFFFFFFFFFFFFF 65 (vga_sample\<lparr>mem := \<lambda>_. 7\<rparr>)) 0xFFFC0 \<noteq> 7"
  using syscall_writes_above_screen [of "vga_sample\<lparr>mem := \<lambda>_. 7\<rparr>", OF _ refl, of 65] by auto
end
