(* ===== verification/Ramdisk.thy ===== *)
theory Ramdisk
  imports Interrupts
begin

text \<open>
  \<open>disk/ramdisk.c\<close>: a disk of 512-byte blocks in memory. The record adds its two globals. All the
  arithmetic on block numbers is 32-bit.
\<close>

record rdisk = intr +
  ramdisk :: u64
  ramdiskblocks :: u32

definition rdiskinit :: "u32 \<Rightarrow> 'a rdisk_scheme \<Rightarrow> 'a rdisk_scheme" where
  "rdiskinit blocknum s =
     (let (p, s1) = pmalloc (blocknum div 8) s in s1\<lparr>ramdisk := p, ramdiskblocks := blocknum\<rparr>)"

definition rdiskdeinit :: "'a rdisk_scheme \<Rightarrow> 'a rdisk_scheme" where
  "rdiskdeinit s = (pfree (ramdisk s) (ramdiskblocks s div 8) s)\<lparr>ramdisk := 0, ramdiskblocks := 0\<rparr>"

definition rdiskread :: "u64 \<Rightarrow> u32 \<Rightarrow> u32 \<Rightarrow> 'a rdisk_scheme \<Rightarrow> (u32, 'a rdisk_scheme) outcome" where
  "rdiskread buf start count s =
     bind_outcome (if start + count > ramdiskblocks s then except (lit ''RAMDISK READ OVER LIMIT'') s else Ret () s)
       (\<lambda>_ s. Ret count (memcpy_st buf (ramdisk s + ucast (start * 512)) (ucast (512 * count)) s))"

definition rdiskwrite :: "u64 \<Rightarrow> u32 \<Rightarrow> u32 \<Rightarrow> 'a rdisk_scheme \<Rightarrow> (u32, 'a rdisk_scheme) outcome" where
  "rdiskwrite data start count s =
     bind_outcome (if start + count > ramdiskblocks s then except (lit ''RAMDISK WRITE OVER LIMIT'') s else Ret () s)
       (\<lambda>_ s. Ret count (memcpy_st (ramdisk s + ucast (start * 512)) data (ucast (512 * count)) s))"

section \<open>The disk as an array of blocks\<close>

definition disk_bytes :: "'a rdisk_scheme \<Rightarrow> nat" where
  "disk_bytes s = 512 * unat (ramdiskblocks s)"

definition block :: "'a rdisk_scheme \<Rightarrow> nat \<Rightarrow> u8 list" where
  "block s k = ld_bytes (vtr s) (mem s) (ramdisk s + of_nat (512 * k)) 512"

text \<open>
  A well-formed disk: its bytes are distinct physical bytes, and it is small enough that no byte
  offset needs more than 32 bits.
\<close>

definition disk_ok :: "'a rdisk_scheme \<Rightarrow> bool" where
  "disk_ok s \<longleftrightarrow> disk_bytes s < 4294967296 \<and> inj_at (vtr s) (ramdisk s) (disk_bytes s)"

lemma same_but_mem_rdisk: "same_but_mem s t \<Longrightarrow> ramdisk t = ramdisk s \<and> ramdiskblocks t = ramdiskblocks s"
  by (auto simp: same_but_mem_def)

text \<open>The byte arithmetic of a request that passes the check without wrapping.\<close>

lemma request_bytes:
  assumes "disk_bytes s < 4294967296" "unat start + unat count \<le> unat (ramdiskblocks s)"
  shows "\<not> start + count > ramdiskblocks s" "(ucast (start * 512) :: u64) = of_nat (512 * unat start)"
    "unat (ucast (512 * count) :: u64) = 512 * unat count" "512 * unat start + 512 * unat count \<le> disk_bytes s"
proof -
  have le: "512 * unat start + 512 * unat count \<le> disk_bytes s"
    using assms(2) by (simp add: disk_bytes_def)
  then show "512 * unat start + 512 * unat count \<le> disk_bytes s" .
  have "unat (start + count) = unat start + unat count"
    using assms by (simp add: unat_word_ariths disk_bytes_def)
  then show "\<not> start + count > ramdiskblocks s"
    using assms(2) by (simp add: word_less_nat_alt)
  have "unat (start * 512) = 512 * unat start" "unat (512 * count) = 512 * unat count"
    using le assms(1) by (simp_all add: unat_word_ariths)
  then show "(ucast (start * 512) :: u64) = of_nat (512 * unat start)"
    "unat (ucast (512 * count) :: u64) = 512 * unat count"
    by (metis of_nat_unat unat_ucast_up32, simp add: unat_ucast_up32)
qed

lemma rdiskwrite_ok:
  assumes "disk_bytes s < 4294967296" "unat start + unat count \<le> unat (ramdiskblocks s)"
  shows "rdiskwrite data start count s =
    Ret count (memcpy_st (ramdisk s + of_nat (512 * unat start)) data (ucast (512 * count)) s)"
  using request_bytes [OF assms] by (simp add: rdiskwrite_def)

lemma rdiskread_ok:
  assumes "disk_bytes s < 4294967296" "unat start + unat count \<le> unat (ramdiskblocks s)"
  shows "rdiskread buf start count s =
    Ret count (memcpy_st buf (ramdisk s + of_nat (512 * unat start)) (ucast (512 * count)) s)"
  using request_bytes [OF assms] by (simp add: rdiskread_def)

lemma memcpy_st_mem: "mem (memcpy_st d c n s) = memcpy (vtr s) (mem s) d c n" "vtr (memcpy_st d c n s) = vtr s"
  "ramdisk (memcpy_st d c n r) = ramdisk r" "ramdiskblocks (memcpy_st d c n r) = ramdiskblocks r"
  by (simp_all add: memcpy_st_def)

text \<open>
  Writing blocks stores them and leaves the other blocks alone: for a request inside a
  well-formed disk, from a source apart from the disk, the written blocks afterwards are the source's
  bytes in order, every other block is what it was, and nothing outside the written bytes changes.
\<close>

lemma rdiskwrite_writes_blocks:
  assumes ok: "disk_ok s" and fits: "unat start + unat count \<le> unat (ramdiskblocks s)"
    and apart: "foot (vtr s) data (512 * unat count) \<inter> foot (vtr s) (ramdisk s) (disk_bytes s) = {}"
  shows "\<exists>t. rdiskwrite data start count s = Ret count t \<and>
    (\<forall>k<unat (ramdiskblocks s). block t k =
      (if unat start \<le> k \<and> k < unat start + unat count
       then ld_bytes (vtr s) (mem s) (data + of_nat (512 * (k - unat start))) 512 else block s k)) \<and>
    (\<forall>p. p \<notin> foot (vtr s) (ramdisk s) (disk_bytes s) \<longrightarrow> mem t p = mem s p)"
proof -
  let ?d = "ramdisk s + of_nat (512 * unat start)" and ?n = "512 * unat count"
  let ?t = "memcpy_st ?d data (ucast (512 * count)) s"
  have small: "disk_bytes s < 4294967296" and inj: "inj_at (vtr s) (ramdisk s) (disk_bytes s)"
    using ok by (simp_all add: disk_ok_def)
  note R = request_bytes [OF small fits]
  have sub: "foot (vtr s) ?d ?n \<subseteq> foot (vtr s) (ramdisk s) (disk_bytes s)"
    by (rule foot_shift) (rule R(4))
  have m: "mem ?t = st_bytes (vtr s) (mem s) ?d (ld_bytes (vtr s) (mem s) data ?n)"
    using sub apart R(3) by (simp only: memcpy_st_mem) (subst memcpy_eq, auto)
  have injd: "inj_at (vtr s) ?d ?n"
    by (rule inj_at_shift [OF inj R(4)])
  have "block ?t k = (if unat start \<le> k \<and> k < unat start + unat count
       then ld_bytes (vtr s) (mem s) (data + of_nat (512 * (k - unat start))) 512 else block s k)"
    if k: "k < unat (ramdiskblocks s)" for k
  proof (cases "unat start \<le> k \<and> k < unat start + unat count")
    case True
    define j where "j = k - unat start"
    have j: "k = unat start + j" "j < unat count" using True by (auto simp: j_def)
    have "block ?t k = ld_bytes (vtr s) (mem s) (data + of_nat (512 * j)) 512"
    proof (rule nth_equalityI)
      fix i
      assume "i < length (block ?t k)"
      then have i: "i < 512" by (simp add: block_def)
      then have lt: "512 * j + i < ?n" using j(2) by simp
      have addr: "ramdisk s + of_nat (512 * k) + of_nat i = ?d + of_nat (512 * j + i)"
        by (simp add: j(1) distrib_left)
      have "block ?t k ! i = mem ?t (vtr s (?d + of_nat (512 * j + i)))"
        using i unfolding block_def memcpy_st_mem by (simp only: nth_ld_bytes ld8_def addr memcpy_st_mem)
      also have "\<dots> = ld_bytes (vtr s) (mem s) data ?n ! (512 * j + i)"
        unfolding m by (rule st_bytes_at) (use injd lt in simp_all)
      also have "\<dots> = ld_bytes (vtr s) (mem s) (data + of_nat (512 * j)) 512 ! i"
        using i lt by (simp add: nth_ld_bytes add.assoc)
      finally show "block ?t k ! i = ld_bytes (vtr s) (mem s) (data + of_nat (512 * j)) 512 ! i" .
    qed (simp add: block_def)
    then show ?thesis using True by (simp add: j_def)
  next
    case False
    have "512 * k + 512 \<le> disk_bytes s" using k by (simp add: disk_bytes_def)
    moreover have "512 * k + 512 \<le> 512 * unat start \<or> 512 * unat start + ?n \<le> 512 * k" using False by auto
    ultimately have "foot (vtr s) (ramdisk s + of_nat (512 * k)) 512 \<inter> foot (vtr s) ?d ?n = {}"
      by (rule foot_apart [OF inj _ R(4)])
    then have "block ?t k = block s k"
      unfolding block_def memcpy_st_mem(2-4) m by (intro ld_bytes_st_bytes_other) simp
    then show ?thesis using False by (simp only: if_False)
  qed
  moreover have "mem ?t p = mem s p" if "p \<notin> foot (vtr s) (ramdisk s) (disk_bytes s)" for p
    using that sub unfolding m by (intro st_bytes_other) auto
  ultimately show ?thesis
    using rdiskwrite_ok [OF small fits] by blast
qed

text \<open>
  C35. What was written is read back: after a successful write of \<open>count\<close> blocks, reading the same
  blocks into a buffer apart from the disk fills the buffer with the bytes the source had.
\<close>

theorem rdisk_round_trip:
  assumes ok: "disk_ok s" and fits: "unat start + unat count \<le> unat (ramdiskblocks s)"
    and data: "foot (vtr s) data (512 * unat count) \<inter> foot (vtr s) (ramdisk s) (disk_bytes s) = {}"
    and buf: "foot (vtr s) buf (512 * unat count) \<inter> foot (vtr s) (ramdisk s) (disk_bytes s) = {}"
      "inj_at (vtr s) buf (512 * unat count)"
  shows "\<exists>t u. rdiskwrite data start count s = Ret count t \<and> rdiskread buf start count t = Ret count u \<and>
    ld_bytes (vtr u) (mem u) buf (512 * unat count) = ld_bytes (vtr s) (mem s) data (512 * unat count)"
proof -
  let ?d = "ramdisk s + of_nat (512 * unat start)" and ?n = "512 * unat count"
  let ?t = "memcpy_st ?d data (ucast (512 * count)) s"
  have small: "disk_bytes s < 4294967296" and inj: "inj_at (vtr s) (ramdisk s) (disk_bytes s)"
    using ok by (simp_all add: disk_ok_def)
  note R = request_bytes [OF small fits]
  have sub: "foot (vtr s) ?d ?n \<subseteq> foot (vtr s) (ramdisk s) (disk_bytes s)"
    by (rule foot_shift) (rule R(4))
  have w: "rdiskwrite data start count s = Ret count ?t"
    using rdiskwrite_ok [OF small fits] .
  have r: "rdiskread buf start count ?t = Ret count (memcpy_st buf ?d (ucast (512 * count)) ?t)"
    using rdiskread_ok [of ?t start count buf] small fits by (simp add: memcpy_st_mem disk_bytes_def)
  have "ld_bytes (vtr s) (memcpy (vtr s) (mem s) ?d data (ucast (512 * count))) ?d ?n = ld_bytes (vtr s) (mem s) data ?n"
    using ld_bytes_memcpy [of "vtr s" ?d "ucast (512 * count)" data "mem s"] sub data inj_at_shift [OF inj R(4)] R(3) by auto
  moreover have "ld_bytes (vtr s) (memcpy (vtr s) (mem ?t) buf ?d (ucast (512 * count))) buf ?n = ld_bytes (vtr s) (mem ?t) ?d ?n"
    using ld_bytes_memcpy [of "vtr s" buf "ucast (512 * count)" ?d "mem ?t"] sub buf R(3) by auto
  ultimately show ?thesis
    using w r by (simp add: memcpy_st_mem)
qed

text \<open>
  C36. The limit check holds for requests whose end does not wrap: one inside the disk is served, one
  past its end stops the machine before any byte is copied. It does not hold in 32-bit arithmetic:
  block \<open>0xFFFFFFFF\<close> passes on every disk, and 512 bytes from almost 4 GiB beyond the disk are copied.
\<close>

theorem rdiskread_limit:
  "(unat start + unat count < 4294967296 \<longrightarrow>
     (if unat start + unat count \<le> unat (ramdiskblocks s) then \<exists>t. rdiskread buf start count s = Ret count t
      else rdiskread buf start count s = except (lit ''RAMDISK READ OVER LIMIT'') s)) \<and>
   rdiskread buf 0xFFFFFFFF 1 s = Ret 1 (memcpy_st buf (ramdisk s + 0xFFFFFE00) 512 s)"
proof (intro conjI impI)
  assume "unat start + unat count < 4294967296"
  then have "unat (start + count) = unat start + unat count"
    by (simp add: unat_word_ariths)
  then have "start + count > ramdiskblocks s \<longleftrightarrow> \<not> unat start + unat count \<le> unat (ramdiskblocks s)"
    by (simp add: word_less_nat_alt not_le)
  then show "if unat start + unat count \<le> unat (ramdiskblocks s) then \<exists>t. rdiskread buf start count s = Ret count t
      else rdiskread buf start count s = except (lit ''RAMDISK READ OVER LIMIT'') s"
    by (simp add: rdiskread_def)
next
  have a: "(0xFFFFFFFF :: u32) + 1 = 0" "(ucast ((0xFFFFFFFF :: u32) * 512) :: u64) = 0xFFFFFE00"
    "(ucast (512 * (1 :: u32)) :: u64) = 512"
    by simp_all
  show "rdiskread buf 0xFFFFFFFF 1 s = Ret 1 (memcpy_st buf (ramdisk s + 0xFFFFFE00) 512 s)"
    unfolding rdiskread_def a by simp
qed

definition rdisk_sample :: rdisk where
  "rdisk_sample = mouse.extend (keyboard.extend (tasks.extend sched_sample
      \<lparr>isShift = False, isCtrl = False, isAlt = False, isLock = False\<rparr>)
     \<lparr>mouse_x = 8, mouse_y = 16, left_pressed = False, right_pressed = False, middle_pressed = False, handler_cycle = 0,
      current_packet = \<lparr>flags = 0, x_mov = 0, y_mov = 0\<rparr>, discard_packet = 0\<rparr>)
     \<lparr>idt_descriptors = [], idt_size = 0, idt_address = 0, mouseDone = False, xytest = 0,
      ramdisk = 0x400000, ramdiskblocks = 8\<rparr>"

lemma rdisk_sample_simps [simp]:
  "ramdisk rdisk_sample = 0x400000" "ramdiskblocks rdisk_sample = 8" "xlat rdisk_sample = (\<lambda>_ a. a)"
  "disk_bytes rdisk_sample = 4096"
  by (simp_all add: rdisk_sample_def disk_bytes_def mouse.defs keyboard.defs tasks.defs sched_sample_def vmm.defs
      paging_sample_def pmm.defs pmm_sample_def)

lemma disk_ok_sample: "disk_ok rdisk_sample"
  by (simp add: disk_ok_def inj_at_id)

lemma sample_apart:
  "unat a + n \<le> 0x400000 \<Longrightarrow> foot (\<lambda>a. a) a n \<inter> foot (\<lambda>a. a) 0x400000 4096 = {}"
  by (subst foot_id) (auto simp: foot_id)

lemma rdiskwrite_writes_blocks_witness:
  "\<exists>t. rdiskwrite 0x2000 3 2 rdisk_sample = Ret 2 t \<and> block t 5 = block rdisk_sample 5"
  using rdiskwrite_writes_blocks [OF disk_ok_sample, of 3 2 "0x2000"] by (simp add: sample_apart) fastforce

theorem rdisk_round_trip_witness:
  "\<exists>t u. rdiskwrite 0x2000 3 2 rdisk_sample = Ret 2 t \<and> rdiskread 0x8000 3 2 t = Ret 2 u"
  using rdisk_round_trip [OF disk_ok_sample, of 3 2 "0x2000" "0x8000"] by (simp add: sample_apart inj_at_id) blast

theorem rdiskread_limit_witness:
  "rdiskread 0x8000 7 2 rdisk_sample = except (lit ''RAMDISK READ OVER LIMIT'') rdisk_sample"
  using rdiskread_limit [of 7 2 rdisk_sample "0x8000"] by simp

end
