(* ===== verification/Fat32.thy ===== *)
theory Fat32
  imports Ramdisk
begin

text \<open>
  \<open>disk/fat32.c\<close>: reading a FAT32 volume from the RAM disk. The record adds the three global
  pointers; the packed structures of \<open>fat32.h\<close> are read at their byte offsets. \<open>listDir\<close> is commented
  out in the source.
\<close>

record fat = rdisk +
  BRec :: u64
  FSinfo :: u64
  FAT :: u64

section \<open>The boot record\<close>

definition bpb_secpercl :: "'a fat_scheme \<Rightarrow> u8" where
  "bpb_secpercl s = load8 s (BRec s + 13)"

definition bpb_ressec :: "'a fat_scheme \<Rightarrow> u16" where
  "bpb_ressec s = load16 s (BRec s + 14)"

definition ebr_secperFAT :: "'a fat_scheme \<Rightarrow> u32" where
  "ebr_secperFAT s = load32 s (BRec s + 36)"

definition ebr_rootclnum :: "'a fat_scheme \<Rightarrow> u32" where
  "ebr_rootclnum s = load32 s (BRec s + 44)"

definition ebr_FSInfosec :: "'a fat_scheme \<Rightarrow> u16" where
  "ebr_FSInfosec s = load16 s (BRec s + 48)"

definition FATsec :: "'a fat_scheme \<Rightarrow> u32 \<Rightarrow> u32" where
  "FATsec s fati = ucast (bpb_ressec s) + fati * ebr_secperFAT s"

text \<open>\<open>BRec\<close> and \<open>FSinfo\<close> are left pointing into the routine's own stack frame.\<close>

definition fat32init :: "'a fat_scheme \<Rightarrow> (unit, 'a fat_scheme) outcome" where
  "fat32init s =
     (let loadedAt = locals s ''fat32init.loadedAt'';
          s1 = s\<lparr>BRec := loadedAt, FSinfo := loadedAt + 512\<rparr>
      in bind_outcome (rdiskread loadedAt 0 1 s1) (\<lambda>_ s2.
         bind_outcome (rdiskread (loadedAt + 512) (ucast (ebr_FSInfosec s2)) 1 s2) (\<lambda>_ s3.
         let s4 = s3\<lparr>FAT := 0x12345678\<rparr>
         in bind_outcome (rdiskread (FAT s4) (FATsec s4 0) (ebr_secperFAT s4) s4) (\<lambda>_ s5. Ret () s5))))"

definition getVolumeLabel :: "u64 \<Rightarrow> 'a fat_scheme \<Rightarrow> u64 \<times> 'a fat_scheme" where
  "getVolumeLabel buf s =
     (let s1 = fold (\<lambda>i s. store8 (buf + of_nat i) (load8 s (BRec s + 71 + of_nat i)) s) [0..<11] s
      in (buf, store8 (buf + 11) 0 s1))"

section \<open>Finding a file\<close>

text \<open>A directory entry: the name at offset 0, \<open>attr\<close> at 11, the cluster number at 20 and 26.\<close>

definition entry_attr :: "'a machine_scheme \<Rightarrow> u64 \<Rightarrow> u8" where
  "entry_attr s e = load8 s (e + 11)"

definition entry_cluster :: "'a machine_scheme \<Rightarrow> u64 \<Rightarrow> u32" where
  "entry_cluster s e = push_bit 16 (ucast (load16 s (e + 20))) OR ucast (load16 s (e + 26))"

text \<open>
  The two nested loops with the jump back to \<open>newloop1\<close>, from entry \<open>i\<close> of the cluster at \<open>cdire\<close>.
  \<^const>\<open>None\<close> is a search that never ends.
\<close>

partial_function (option) locate_scan ::
  "u64 \<Rightarrow> u64 \<Rightarrow> u64 \<Rightarrow> u32 \<Rightarrow> nat \<Rightarrow> 'a fat_scheme \<Rightarrow> (u32, 'a fat_scheme) outcome option" where
  "locate_scan dir cdire tempstr stroffset i s =
     (if i < unat (bpb_secpercl s) * 16
      then let e = cdire + of_nat (32 * i)
           in if entry_attr s e = 0x0F then locate_scan dir cdire tempstr stroffset (Suc i) s
              else let s1 = memcpy_st tempstr (dir + ucast stroffset) 11 s
                   in case strcmp (vtr s1) (mem s1) e tempstr of
                        None \<Rightarrow> None
                      | Some c \<Rightarrow>
                          if c \<noteq> 0 then locate_scan dir cdire tempstr stroffset (Suc i) s1
                          else if load8 s1 (dir + ucast (stroffset div 11 * 11 + 11)) = 0
                          then Some (Ret (entry_cluster s1 e)
                                 (pfree cdire (ucast (bpb_secpercl s1 div 8) + 1) s1))
                          else let ccl = entry_cluster s1 e
                               in case rdiskread cdire (ccl * ucast (bpb_secpercl s1)) (ucast (bpb_secpercl s1)) s1 of
                                    Ret _ s2 \<Rightarrow> locate_scan dir cdire tempstr (stroffset + 12) 0 s2
                                  | Halted t \<Rightarrow> Some (Halted t)
                                  | Restarted \<Rightarrow> Some Restarted
                                  | Undef \<Rightarrow> Some Undef
      else Some (Ret 0 s))"

definition locateFileCl :: "u64 \<Rightarrow> 'a fat_scheme \<Rightarrow> (u32, 'a fat_scheme) outcome option" where
  "locateFileCl dir s =
     (let ccl = ebr_rootclnum s;
          (p, s1) = pmalloc (ucast (bpb_secpercl s div 8) + 1) s;
          cdire = p + hhdm s1;
          tempstr = locals s ''locateFileCl.tempstr'';
          s2 = store8 (tempstr + 11) 0 s1
      in case rdiskread cdire (ccl * ucast (bpb_secpercl s2)) (ucast (bpb_secpercl s2)) s2 of
           Ret _ s3 \<Rightarrow> locate_scan dir cdire tempstr 0 0 s3
         | Halted t \<Rightarrow> Some (Halted t)
         | Restarted \<Rightarrow> Some Restarted
         | Undef \<Rightarrow> Some Undef)"

section \<open>Comparing names\<close>

lemma strcmp_any:
  "cstring tr m b ys \<Longrightarrow> \<exists>r. strcmp tr m a b = Some r \<and> (r = 0 \<longleftrightarrow> cstring tr m a ys)"
proof (induction ys arbitrary: a b)
  case Nil
  then show ?case
    by (simp add: strcmp.simps [of tr m a b] cstring_Nil unsigned_eq_0_iff)
next
  case (Cons y ys)
  then have y: "y \<noteq> 0" "ld8 tr m b = y" "cstring tr m (b + 1) ys" by (simp_all add: cstring_Cons)
  show ?case
  proof (cases "ld8 tr m a = y")
    case True
    then show ?thesis
      using Cons.IH [OF y(3), of "a + 1"] y by (simp add: strcmp.simps [of tr m a b] cstring_Cons)
  next
    case False
    then have "uint (ld8 tr m a) \<noteq> uint y" by (simp add: word_uint_eq_iff)
    then show ?thesis
      using False y by (simp add: strcmp.simps [of tr m a b] cstring_Cons)
  qed
qed

lemma same_but_mem_fat: "same_but_mem s t \<Longrightarrow> BRec t = BRec s \<and> FSinfo t = FSinfo s \<and> FAT t = FAT s"
  by (auto simp: same_but_mem_def)

section \<open>The volume label\<close>

definition fat_sample :: fat where
  "fat_sample = intr.extend (mouse.extend (keyboard.extend (tasks.extend (sched_sample
      \<lparr>mem := \<lambda>a. if a = 0x7000D then 1 else 0x20\<rparr>)
      \<lparr>isShift = False, isCtrl = False, isAlt = False, isLock = False\<rparr>)
     \<lparr>mouse_x = 8, mouse_y = 16, left_pressed = False, right_pressed = False, middle_pressed = False, handler_cycle = 0,
      current_packet = \<lparr>flags = 0, x_mov = 0, y_mov = 0\<rparr>, discard_packet = 0\<rparr>)
     \<lparr>idt_descriptors = [], idt_size = 0, idt_address = 0, mouseDone = False, xytest = 0\<rparr>)
     \<lparr>ramdisk = 0x400000, ramdiskblocks = 8, BRec = 0x70000, FSinfo = 0x70200, FAT = 0\<rparr>"

lemma fat_sample_simps [simp]:
  "xlat fat_sample = (\<lambda>_ a. a)" "BRec fat_sample = 0x70000" "mem fat_sample = (\<lambda>a. if a = 0x7000D then 1 else 0x20)"
  by (simp_all add: fat_sample_def intr.defs mouse.defs keyboard.defs tasks.defs sched_sample_def vmm.defs
      paging_sample_def pmm.defs pmm_sample_def)

text \<open>
  \<open>getVolumeLabel\<close> returns its buffer, filled with the eleven label bytes of the boot record and a
  terminating zero, when the buffer is apart from the label; no other byte changes.
\<close>

lemma getVolumeLabel_copies:
  assumes inj: "inj_at (vtr s) buf 12" and apart: "foot (vtr s) buf 12 \<inter> foot (vtr s) (BRec s + 71) 11 = {}"
  shows "\<exists>t. getVolumeLabel buf s = (buf, t) \<and>
    ld_bytes (vtr s) (mem t) buf 12 = ld_bytes (vtr s) (mem s) (BRec s + 71) 11 @ [0] \<and>
    (\<forall>p. p \<notin> foot (vtr s) buf 12 \<longrightarrow> mem t p = mem s p)"
proof -
  let ?f = "\<lambda>i s. store8 (buf + of_nat i) (load8 s (BRec s + 71 + of_nat i)) s"
  have I: "m \<le> 11 \<Longrightarrow> same_but_mem s (fold ?f [0..<m] s) \<and>
    (\<forall>k<m. mem (fold ?f [0..<m] s) (vtr s (buf + of_nat k)) = load8 s (BRec s + 71 + of_nat k)) \<and>
    (\<forall>p. p \<notin> foot (vtr s) buf m \<longrightarrow> mem (fold ?f [0..<m] s) p = mem s p)" for m
  proof (induction m)
    case (Suc m)
    define u where "u = fold ?f [0..<m] s"
    have u: "same_but_mem s u" "\<And>k. k < m \<Longrightarrow> mem u (vtr s (buf + of_nat k)) = load8 s (BRec s + 71 + of_nat k)"
      "\<And>p. p \<notin> foot (vtr s) buf m \<Longrightarrow> mem u p = mem s p"
      using Suc by (auto simp: u_def)
    note eq = same_but_mem_machine [OF u(1)] same_but_mem_fat [OF u(1)]
    have "vtr s (BRec s + 71 + of_nat m) \<in> foot (vtr s) (BRec s + 71) 11"
      using Suc.prems by (intro in_foot) simp
    moreover have "foot (vtr s) buf m \<subseteq> foot (vtr s) buf 12" using Suc.prems by (intro foot_mono) simp
    ultimately have ld: "load8 u (BRec u + 71 + of_nat m) = load8 s (BRec s + 71 + of_nat m)"
      using apart u(3) eq by (auto simp: ld8_def)
    have step: "fold ?f [0..<Suc m] s = store8 (buf + of_nat m) (load8 s (BRec s + 71 + of_nat m)) u"
      unfolding fold_upt_Suc u_def [symmetric] ld ..
    have "vtr s (buf + of_nat k) \<noteq> vtr s (buf + of_nat m)" if "k < m" for k
      using inj_at_eq [OF inj, of k m] that Suc.prems by simp
    moreover have "same_but_mem s (store8 (buf + of_nat m) v u)" for v
      using same_but_mem_trans [OF u(1)] by simp
    ultimately show ?case
      unfolding step using u(2,3) eq by (auto simp: mem_store8 less_Suc_eq foot_Suc)
  qed simp
  define u where "u = fold ?f [0..<11] s"
  have u: "same_but_mem s u" "\<And>k. k < 11 \<Longrightarrow> mem u (vtr s (buf + of_nat k)) = load8 s (BRec s + 71 + of_nat k)"
    "\<And>p. p \<notin> foot (vtr s) buf 11 \<Longrightarrow> mem u p = mem s p"
    using I [of 11] by (auto simp: u_def)
  note eq = same_but_mem_machine [OF u(1)]
  let ?t = "store8 (buf + 11) 0 u"
  have ne: "vtr s (buf + of_nat k) \<noteq> vtr s (buf + 11)" if "k < 11" for k
    using inj_at_eq [OF inj, of k 11] that by simp
  have t: "ld_bytes (vtr s) (mem ?t) buf 12 = ld_bytes (vtr s) (mem s) (BRec s + 71) 11 @ [0]"
  proof (rule nth_equalityI)
    fix k
    assume "k < length (ld_bytes (vtr s) (mem ?t) buf 12)"
    then have "k < 11 \<or> k = 11" by auto
    then show "ld_bytes (vtr s) (mem ?t) buf 12 ! k = (ld_bytes (vtr s) (mem s) (BRec s + 71) 11 @ [0]) ! k"
      using u(2) ne eq by (auto simp: nth_append nth_ld_bytes ld8_def mem_store8)
  qed simp
  have "foot (vtr s) buf 12 = insert (vtr s (buf + of_nat 11)) (foot (vtr s) buf 11)"
    using foot_Suc [of "vtr s" buf 11] by simp
  then have "\<forall>p. p \<notin> foot (vtr s) buf 12 \<longrightarrow> mem ?t p = mem s p"
    using u(3) eq by (simp add: mem_store8)
  with t show ?thesis
    by (simp add: getVolumeLabel_def u_def Let_def)
qed

lemma getVolumeLabel_copies_witness:
  "\<exists>t. getVolumeLabel 0x30000 fat_sample = (0x30000, t)"
proof -
  have "foot (\<lambda>a. a) 0x30000 12 \<inter> foot (\<lambda>a. a) (0x70000 + 71) 11 = {}"
    by (auto simp: foot_id)
  then show ?thesis
    using getVolumeLabel_copies [of fat_sample "0x30000"] by (auto simp: inj_at_id)
qed
end
