(* ===== verification/Kernel.thy ===== *)
theory Kernel
  imports Fat32
begin

text \<open>
  \<open>kernel.c\<close>: the boot-protocol tags, the start-up sequence, and the running kernel as a step relation
  over its interrupts and system calls. The structures of \<open>stivale2.h\<close> are read at their byte offsets.
  A null tag is followed as C does, to the memory at its small address.
\<close>

section \<open>Boot-protocol tags\<close>

definition MEMMAP_ID :: u64 where "MEMMAP_ID = 0x2187f79e8612de07"
definition HHDM_ID :: u64 where "HHDM_ID = 0xb0ed257db18cb58f"
definition MODULES_ID :: u64 where "MODULES_ID = 0x4b6fe466aade04ce"
definition FRAMEBUFFER_ID :: u64 where "FRAMEBUFFER_ID = 0x506461d2950408fa"

text \<open>A list of tags that does not end in a null pointer is walked for ever: \<^const>\<open>None\<close>.\<close>

partial_function (option) get_tag_loop :: "'a machine_scheme \<Rightarrow> u64 \<Rightarrow> u64 \<Rightarrow> u64 option" where
  "get_tag_loop s ident current_tag =
     (if current_tag = 0 then Some 0
      else if load64 s current_tag = ident then Some current_tag
      else get_tag_loop s ident (load64 s (current_tag + 8)))"

definition stivale2_get_tag :: "'a machine_scheme \<Rightarrow> u64 \<Rightarrow> u64 \<Rightarrow> u64 option" where
  "stivale2_get_tag s stivale2_struct ident = get_tag_loop s ident (load64 s (stivale2_struct + 128))"

section \<open>Start-up\<close>

definition loadelf_code :: "LOADELF_RESULT \<Rightarrow> u8" where
  "loadelf_code r = (case r of SUCCESS \<Rightarrow> 0 | WRONG_MAGIC \<Rightarrow> 1 | WRONG_SIZE \<Rightarrow> 2 | WRONG_ARCH \<Rightarrow> 3 | WRONG_BITTAGE \<Rightarrow> 4
     | WRONG_ENDIANNESS \<Rightarrow> 5 | NOT_EXECUTABLE \<Rightarrow> 6)"

text \<open>The screen found in the framebuffer tag.\<close>

definition init_screen :: "u64 \<Rightarrow> 'a vga_scheme \<Rightarrow> 'a vga_scheme" where
  "init_screen fb s =
     (let s1 = s\<lparr>fb_addr := load64 s (fb + 16), fb_width := load16 s (fb + 24), fb_height := load16 s (fb + 26),
                fb_pitch := load16 s (fb + 28)\<rparr>
      in s1\<lparr>Xmax := fb_width s1 div 8, Ymax := fb_height s1 div 16\<rparr>)"

text \<open>The last part of \<open>_start\<close>: the second module of the boot loader is run.\<close>

definition start_module :: "u64 \<Rightarrow> 'a tasks_scheme \<Rightarrow> (unit, 'a tasks_scheme) outcome option" where
  "start_module modules s =
     (let mbegin = load64 s (modules + 168);
          mend = load64 s (modules + 176)
      in case run_elf mbegin (ucast (mend - mbegin)) 4096 s of
           Ret r s1 \<Rightarrow>
             (let s2 = print_hex (locals s1 ''_start.buf'') 2 (ucast (loadelf_code r)) 0xff00ff s1;
                  str = load64 s2 (modules + 168) + 1
              in case printsl 0 3 (\<lambda>i. load8 s2 (str + ucast i)) 0xff00ff 0 3 s2 of
                   None \<Rightarrow> None | Some s3 \<Rightarrow> Some (Halted s3))
         | Halted t \<Rightarrow> Some (Halted t)
         | Restarted \<Rightarrow> Some Restarted
         | Undef \<Rightarrow> Some Undef)"

definition kernel_start :: "(nat \<Rightarrow> u64) \<Rightarrow> u64 \<Rightarrow> u64 \<Rightarrow> 'a intr_scheme \<Rightarrow> (unit, 'a intr_scheme) outcome option" where
  "kernel_start isr idt_base st s =
     (case settimer 10000 s of
        Ret _ s1 \<Rightarrow>
          Option.bind (stivale2_get_tag s1 st MEMMAP_ID) (\<lambda>memmap_ptr.
          Option.bind (stivale2_get_tag s1 st HHDM_ID) (\<lambda>hhdm_stptr.
          let s2 = s1\<lparr>hhdm := load64 s1 (hhdm_stptr + 16)\<rparr>;
              s3 = vmm_init (pmm_init memmap_ptr s2)
          in Option.bind (stivale2_get_tag s3 st MODULES_ID) (\<lambda>modules.
             Option.bind (stivale2_get_tag s3 st FRAMEBUFFER_ID) (\<lambda>fb.
             if fb = 0 then Some (Halted s3)
             else let s4 = init_mouse (install_idt isr idt_base (init_screen fb s3));
                      s5 = prints 0 0 (lit ''Booted kernel successfully!'') 0x00ff00 0 s4
                  in start_module modules s5))))
      | Halted t \<Rightarrow> Some (Halted t)
      | Restarted \<Rightarrow> Some Restarted
      | Undef \<Rightarrow> Some Undef)"

section \<open>The walk over the tags\<close>

text \<open>A well-formed tag list: the chain of \<open>next\<close> pointers from \<open>tag\<close> is \<open>ts\<close> and then the null pointer.\<close>

fun tag_chain :: "'a machine_scheme \<Rightarrow> u64 \<Rightarrow> u64 list \<Rightarrow> bool" where
  "tag_chain s tag [] \<longleftrightarrow> tag = 0"
| "tag_chain s tag (t # ts) \<longleftrightarrow> tag = t \<and> t \<noteq> 0 \<and> tag_chain s (load64 s (t + 8)) ts"

lemma get_tag_loop_find:
  "tag_chain s tag ts \<Longrightarrow>
   get_tag_loop s ident tag = Some (case find (\<lambda>t. load64 s t = ident) ts of None \<Rightarrow> 0 | Some t \<Rightarrow> t)"
  by (induction ts arbitrary: tag) (simp_all add: get_tag_loop.simps [of s ident])

text \<open>
  C40. On a tag list that ends in a null pointer the search returns: the first tag with the identifier,
  or the null pointer when there is none.
\<close>

theorem stivale2_get_tag_finds:
  assumes "tag_chain s (load64 s (st + 128)) ts"
  shows "stivale2_get_tag s st ident = Some (case find (\<lambda>t. load64 s t = ident) ts of None \<Rightarrow> 0 | Some t \<Rightarrow> t)"
  unfolding stivale2_get_tag_def using assms by (rule get_tag_loop_find)

theorem stivale2_get_tag_finds_witness: "stivale2_get_tag vga_sample 0 7 = Some 0"
proof -
  have "load64 vga_sample 128 = 0" by (simp add: ld64_def ld_bytes_def ld8_def upt_rec)
  then show ?thesis
    using stivale2_get_tag_finds [of vga_sample 0 "[]" 7] by simp
qed

section \<open>The running kernel\<close>

text \<open>
  What can happen once the kernel idles, and how it ends: a timer interrupt (the stub acknowledges it
  itself), an interrupt or exception at a vector whose stub calls \<open>interrupt_handler\<close>, a system call, user
  code that changes memory or the address of the last page fault, a device that changes what its ports
  supply. A processor exception without a gate becomes a double fault, vector 8.
\<close>

definition exception_vectors :: "u32 set" where
  "exception_vectors = {0, 4, 6, 8, 14}"

inductive kstep :: "'a intr_scheme \<Rightarrow> (unit, 'a intr_scheme) outcome \<Rightarrow> bool" where
  timer: "kstep s (bind_outcome (clock_handler stack s) (\<lambda>_ t. Ret () (write_port 0x20 0x20 t)))"
| interrupt: "v \<in> exception_vectors \<union> {33, 44} \<Longrightarrow> kstep s (interrupt_handler v e s)"
| syscall: "kstep s (Ret () (syscall_handler ty v1 v2 s))"
| user: "kstep s (Ret () (s\<lparr>mem := m, cr2 := a\<rparr>))"
| device: "kstep s (Ret () (s\<lparr>inport := f\<rparr>))"

inductive_cases kstepE: "kstep s r"

text \<open>
  A run ends when a handler does not return: the gates clear the interrupt flag, so that the \<open>hlt\<close> loop
  of \<open>except\<close> is not left, and the key it asks for is not seen.
\<close>

inductive krun :: "'a intr_scheme \<Rightarrow> (unit, 'a intr_scheme) outcome \<Rightarrow> bool" where
  begins: "krun s (Ret () s)"
| steps: "krun s (Ret () t) \<Longrightarrow> kstep t r \<Longrightarrow> krun s r"

text \<open>The fields the scheduler's invariant reads.\<close>

definition sched_same :: "'a tasks_scheme \<Rightarrow> 'a tasks_scheme \<Rightarrow> bool" where
  "sched_same s t \<longleftrightarrow> processes t = processes s \<and> processesinfo t = processesinfo s \<and>
     processnum t = processnum s \<and> process t = process s"

lemma sched_same_ok: "sched_same s t \<Longrightarrow> sched_ok s \<Longrightarrow> sched_ok t"
  by (simp add: sched_same_def sched_ok_def)

lemma sched_same_trans: "sched_same s t \<Longrightarrow> sched_same t u \<Longrightarrow> sched_same s u"
  by (simp add: sched_same_def)

lemma io_sched_same: "same_but_io s t \<Longrightarrow> sched_same s t"
  using same_but_io_tasks [of s t] same_but_io_sys [of s t] by (simp add: sched_same_def)

text \<open>The fields the mouse driver's invariant reads, and the panic flag.\<close>

definition mouse_same :: "'a mouse_scheme \<Rightarrow> 'a mouse_scheme \<Rightarrow> bool" where
  "mouse_same s t \<longleftrightarrow> mouse_x t = mouse_x s \<and> mouse_y t = mouse_y s \<and> handler_cycle t = handler_cycle s \<and>
     discard_packet t = discard_packet s \<and> fb_width t = fb_width s \<and> fb_height t = fb_height s \<and>
     panicked t = panicked s"

lemma mouse_same_ok: "mouse_same s t \<Longrightarrow> mouse_ok s \<Longrightarrow> mouse_ok t"
  by (simp add: mouse_same_def mouse_ok_def)

lemma io_mouse_same:
  "same_but_io s t \<Longrightarrow> mouse_same s t"
  by (auto simp: same_but_io_def mouse_same_def)

text \<open>The invariant of the running kernel: both invariants and no panic; and what keeps it.\<close>

definition kernel_ok :: "'a mouse_scheme \<Rightarrow> bool" where
  "kernel_ok s \<longleftrightarrow> sched_ok s \<and> mouse_ok s \<and> \<not> panicked s"

definition quiet :: "'a mouse_scheme \<Rightarrow> 'a mouse_scheme \<Rightarrow> bool" where
  "quiet s t \<longleftrightarrow> sched_same s t \<and> mouse_same s t"

lemma quiet_ok: "quiet s t \<Longrightarrow> kernel_ok s \<Longrightarrow> kernel_ok t"
  using sched_same_ok mouse_same_ok by (auto simp: quiet_def kernel_ok_def mouse_same_def)

lemma quiet_trans [trans]: "quiet s t \<Longrightarrow> quiet t u \<Longrightarrow> quiet s u"
  by (simp add: quiet_def sched_same_def mouse_same_def)

lemma quiet_refl [simp]: "quiet s s"
  by (simp add: quiet_def sched_same_def mouse_same_def)

lemma io_quiet: "same_but_io s t \<Longrightarrow> quiet s t"
  using io_sched_same io_mouse_same by (auto simp: quiet_def)

lemma quiet_upd:
  "quiet s (s\<lparr>nreads := n\<rparr>)" "quiet s (s\<lparr>inport := f\<rparr>)" "quiet s (s\<lparr>cr3 := c\<rparr>)"
  "quiet s (s\<lparr>mem := m\<rparr>)" "quiet s (s\<lparr>isShift := b\<rparr>)" "quiet s (s\<lparr>isLock := b\<rparr>)" "quiet s (s\<lparr>isCtrl := b\<rparr>)" "quiet s (s\<lparr>isAlt := b\<rparr>)"
  by (simp_all add: quiet_def sched_same_def mouse_same_def)

lemma quiet_intr_upd: "quiet s (s\<lparr>xytest := x\<rparr>)" "quiet s (s\<lparr>mouseDone := b\<rparr>)"
  by (simp_all add: quiet_def sched_same_def mouse_same_def)

lemma quiet_pic_ack: "quiet s (pic_ack v s)"
  by (simp add: pic_ack_def write_port_def quiet_def sched_same_def mouse_same_def)

lemma drv_keyboard_int_quiet: "drv_keyboard_int s = Ret c t \<Longrightarrow> quiet s t"
  by (auto simp: drv_keyboard_int_def read_port_def Let_def quiet_def sched_same_def mouse_same_def split: if_splits)

lemma printc_quiet: "quiet s (printc x y c att bg s)"
  by (rule io_quiet [OF printc_same])

lemma keyboard_int_quiet: "quiet s (keyboard_int c s)"
  unfolding keyboard_int_def Let_def
  by (auto intro: quiet_trans [OF printc_quiet] quiet_trans [OF _ printc_quiet] quiet_intr_upd)

lemma mouse_int_quiet: "quiet s (mouse_int st s)"
proof -
  have "quiet s (pixel x y c s)" for x y c
    by (rule io_quiet [OF same_but_mem_io [OF pixel_same]])
  moreover have "quiet s s" by (simp add: quiet_def sched_same_def mouse_same_def)
  ultimately show ?thesis by (simp add: mouse_int_def)
qed

lemma drv_mouse_int_sched: "sched_same s (snd (drv_mouse_int s))"
  by (simp add: drv_mouse_int_def read_port_def mouse_move_def Let_def sched_same_def)

lemma drv_mouse_int_panicked: "panicked (snd (drv_mouse_int s)) = panicked s"
  by (simp add: drv_mouse_int_def read_port_def mouse_move_def Let_def)

lemma drv_mouse_int_kernel_ok: "kernel_ok s \<Longrightarrow> kernel_ok (snd (drv_mouse_int s))"
  using drv_mouse_int_ok [of s] sched_same_ok [OF drv_mouse_int_sched, of s] drv_mouse_int_panicked [of s]
  by (simp add: kernel_ok_def)

lemma locals_quiet: "quiet s (uitoa_st v buf 16 s)"
  by (rule io_quiet [OF same_but_mem_io]) simp

lemma keyboard_interrupt_ok:
  assumes "interrupt_handler 33 e s = Ret () t" "kernel_ok s"
  shows "kernel_ok t"
proof -
  let ?s = "uitoa_st (ucast e) (locals s ''interrupt_handler.errorcodeSTR'') 16 s"
  have "\<not> panicked ?s" using quiet_ok [OF locals_quiet assms(2)] by (simp add: kernel_ok_def)
  with assms(1) obtain c v where c: "drv_keyboard_int ?s = Ret c v"
    and t: "t = pic_ack 33 (if c \<noteq> 0 \<and> sint c < 0x7f then keyboard_int c v else v)"
    by (auto simp: interrupt_handler_def Let_def bind_outcome_Ret)
  have "quiet s ?s" by (rule locals_quiet)
  also have "quiet ?s v" by (rule drv_keyboard_int_quiet [OF c])
  also have "quiet v t"
    unfolding t by (auto intro: quiet_trans [OF keyboard_int_quiet quiet_pic_ack] quiet_pic_ack)
  finally show ?thesis using assms(2) by (rule quiet_ok)
qed

lemma mouse_interrupt_ok:
  assumes "interrupt_handler 44 e s = Ret () t" "kernel_ok s"
  shows "kernel_ok t"
proof -
  let ?s = "uitoa_st (ucast e) (locals s ''interrupt_handler.errorcodeSTR'') 16 s"
  obtain d u where u: "drv_mouse_int ?s = (d, u)" by fastforce
  have "kernel_ok ?s" using quiet_ok [OF locals_quiet assms(2)] .
  from drv_mouse_int_kernel_ok [OF this] have "kernel_ok u" by (simp add: u)
  moreover have "t = pic_ack 44 (if d then mouse_int (get_mouse_state (u\<lparr>mouseDone := d\<rparr>)) (u\<lparr>mouseDone := d\<rparr>) else u\<lparr>mouseDone := d\<rparr>)"
    using assms(1) by (auto simp: interrupt_handler_def Let_def u)
  then have "quiet u t"
    by (auto intro: quiet_trans [OF quiet_intr_upd(2) quiet_pic_ack]
        quiet_trans [OF quiet_trans [OF quiet_intr_upd(2) mouse_int_quiet] quiet_pic_ack])
  ultimately show ?thesis by (rule quiet_ok [rotated])
qed

lemma write_port_quiet: "quiet s (write_port p v s)"
  by (simp add: write_port_def quiet_def sched_same_def mouse_same_def)

lemma syscall_quiet: "quiet s (syscall_handler ty v1 v2 s)"
  by (simp add: syscall_handler_def printc_quiet)

text \<open>The timer writes no mouse variable.\<close>

lemma clock_count_mouse_same: "mouse_same s (clock_count s)"
proof -
  have p: "mouse_same s (print_hex b y n a s)" for b y n a and s :: "'b mouse_scheme"
    unfolding print_hex_def Let_def
    by (rule io_mouse_same) (simp add: same_but_mem_io same_but_io_trans [OF same_but_mem_io prints_same])
  show ?thesis
    using p [of "if processnum s = 1 then s\<lparr>tempdebug := tempdebug s + 1\<rparr> else s"]
    by (simp add: clock_count_def Let_def mouse_same_def split: if_splits)
qed

lemma clock_handler_mouse_same:
  assumes "clock_handler stack s = Ret r t"
  shows "mouse_same s t"
proof -
  have "mouse_same (clock_count s) t"
    using assms by (auto simp: clock_handler_def Let_def mouse_same_def write_cr3_def bind_outcome_Ret split: if_splits)
  then show ?thesis using clock_count_mouse_same [of s] by (simp add: mouse_same_def)
qed

lemma clock_handler_kernel_ok:
  assumes "kernel_ok s"
  obtains r t where "clock_handler stack s = Ret r t" "kernel_ok t"
proof -
  from assms have ok: "sched_ok s" by (simp add: kernel_ok_def)
  have *: "kernel_ok t" if "clock_handler stack s = Ret r t" "sched_ok t" for r t
    using mouse_same_ok [OF clock_handler_mouse_same [OF that(1)]] clock_handler_mouse_same [OF that(1)] assms that(2)
    by (simp add: kernel_ok_def mouse_same_def)
  show thesis
  proof (cases "processnum s = 0")
    case True
    have "sched_ok (clock_count s)"
      by (rule sched_ok_cong [OF ok]) (use ok in \<open>simp_all add: clock_count_fields sched_ok_def word_le_nat_alt\<close>)
    then show thesis by (rule that [OF clock_handler_idle [OF True] * [OF clock_handler_idle [OF True]]])
  next
    case False
    from clock_handler_switch [OF ok False, of stack] obtain t where
      t: "clock_handler stack s = Ret (processes s ! next_process s) t" "unat (process t) = next_process s"
        "processnum t = processnum s" "processes t = processes s" "processesinfo t = processesinfo s"
      by metis
    have "sched_ok t"
      using sched_ok_cong [OF ok t(3-5)] next_process_bounds [OF ok False] t(2) by simp
    then show thesis by (rule that [OF t(1) * [OF t(1)]])
  qed
qed

text \<open>
  Every step of the running kernel comes back to the invariant or is an exception, which stops it. So a
  run is in a good state, or has stopped at an exception.
\<close>

definition kernel_stopped :: "'a intr_scheme \<Rightarrow> (unit, 'a intr_scheme) outcome \<Rightarrow> bool" where
  "kernel_stopped t r \<longleftrightarrow> (\<exists>v e u. v \<in> exception_vectors \<and> r = interrupt_handler v e t \<and> r = Halted u \<and> panicked u \<and> processnum u = 0)"

lemma exception_stops:
  assumes "v \<in> exception_vectors"
  shows "kernel_stopped t (interrupt_handler v e t)"
proof -
  have "v \<noteq> 33" "v \<noteq> 44" using assms by (auto simp: exception_vectors_def)
  from interrupt_handler_stops [OF this] obtain str u where u: "interrupt_handler v e t = except str u" by blast
  then show ?thesis using assms except_halts [of str u] unfolding kernel_stopped_def by metis
qed

lemma device_interrupts_return:
  assumes "kernel_ok t"
  shows "\<exists>u. interrupt_handler 33 e t = Ret () u \<and> kernel_ok u" "\<exists>u. interrupt_handler 44 e t = Ret () u \<and> kernel_ok u"
proof -
  have "\<not> panicked t" using assms by (simp add: kernel_ok_def)
  then show "\<exists>u. interrupt_handler 33 e t = Ret () u \<and> kernel_ok u"
    using interrupt_handler_returns [of 33 t e] keyboard_interrupt_ok [OF _ assms] by blast
  show "\<exists>u. interrupt_handler 44 e t = Ret () u \<and> kernel_ok u"
    using interrupt_handler_returns [of 44 t e] mouse_interrupt_ok [OF _ assms] by blast
qed

lemma kstep_cases: "kstep t r \<Longrightarrow> kernel_ok t \<Longrightarrow> (\<exists>u. r = Ret () u \<and> kernel_ok u) \<or> kernel_stopped t r"
proof (induction rule: kstep.induct)
  case (timer s stack)
  obtain r u where u: "clock_handler stack s = Ret r u" "kernel_ok u" by (rule clock_handler_kernel_ok [OF timer])
  then show ?case using quiet_ok [OF write_port_quiet u(2)] by simp
next
  case (interrupt v s e)
  then show ?case using device_interrupts_return [OF interrupt(2)] exception_stops by blast
next
  case (user s m a)
  then show ?case by (simp add: kernel_ok_def sched_ok_def mouse_ok_def)
qed (auto intro: quiet_ok [OF syscall_quiet] quiet_ok [OF quiet_upd(2)])

lemma krun_cases:
  "krun s r \<Longrightarrow> kernel_ok s \<Longrightarrow> (\<exists>t. r = Ret () t \<and> kernel_ok t) \<or> (\<exists>t. krun s (Ret () t) \<and> kernel_ok t \<and> kernel_stopped t r)"
proof (induction rule: krun.induct)
  case (steps s t r)
  then have "kernel_ok t" by (auto simp: kernel_stopped_def)
  then show ?case using kstep_cases [OF steps(2)] steps(1) by blast
qed simp

text \<open>
  C8. The kernel keeps running until an exception. From a state with the invariants and no panic, let
  timer, keyboard and mouse interrupts, exceptions, system calls, memory changes of user code and device
  inputs come in whatever order. As long as every handler has returned, the next timer, keyboard and mouse
  interrupts return, at most 99 processes are registered with the current one among them, and the pointer's
  coordinates are at most one past the last pixel (C18). A handler fails to return only for an exception,
  which stops the kernel in the panic state with no process left; no step restarts the machine or leaves C.
  The C globals are fields of the state and not bytes of memory: the theorem does not speak of programs or
  system calls that write over them.
\<close>

theorem kernel_keeps_running:
  assumes "kernel_ok s" "krun s r"
  shows "case r of
      Ret _ t \<Rightarrow> (\<exists>p u. clock_handler stack t = Ret p u) \<and> (\<exists>u. interrupt_handler 33 e t = Ret () u) \<and>
        (\<exists>u. interrupt_handler 44 e t = Ret () u) \<and> unat (processnum t) \<le> 99 \<and> process t \<le> processnum t \<and>
        0 \<le> sint (mouse_x t) \<and> sint (mouse_x t) \<le> uint (fb_width t) \<and>
        0 \<le> sint (mouse_y t) \<and> sint (mouse_y t) \<le> uint (fb_height t)
    | Halted t \<Rightarrow> panicked t \<and> processnum t = 0 \<and>
        (\<exists>u v e. krun s (Ret () u) \<and> v \<in> exception_vectors \<and> interrupt_handler v e u = Halted t)
    | _ \<Rightarrow> False"
  using krun_cases [OF assms(2,1)]
proof
  assume "\<exists>t. r = Ret () t \<and> kernel_ok t"
  then obtain t where r: "r = Ret () t" and ok: "kernel_ok t" by blast
  obtain p u where "clock_handler stack t = Ret p u" using clock_handler_kernel_ok [OF ok] by metis
  then show ?thesis
    using device_interrupts_return [OF ok, of e] ok
    unfolding r outcome.case by (auto simp add: kernel_ok_def sched_ok_def mouse_ok_def)
next
  assume "\<exists>t. krun s (Ret () t) \<and> kernel_ok t \<and> kernel_stopped t r"
  then obtain u v e t where r: "r = Halted t" "panicked t" "processnum t = 0" and
    u: "krun s (Ret () u)" "v \<in> exception_vectors" "interrupt_handler v e u = Halted t"
    unfolding kernel_stopped_def by metis
  then show ?thesis unfolding r(1) outcome.case by blast
qed

lemma kernel_ok_sample: "kernel_ok intr_sample"
  by (simp add: kernel_ok_def sched_ok_def mouse_ok_def ALIGN_def)
    (simp add: intr_sample_def keyboard.defs)

theorem kernel_keeps_running_witness:
  "\<exists>r u. clock_handler 0 (syscall_handler 0 2 0x41 (intr_sample\<lparr>inport := \<lambda>n p. 8\<rparr>)) = Ret r u"
proof -
  have "krun intr_sample (Ret () (syscall_handler 0 2 0x41 (intr_sample\<lparr>inport := \<lambda>n p. 8\<rparr>)))"
    by (rule krun.steps [OF krun.steps [OF krun.begins kstep.device] kstep.syscall])
  from kernel_keeps_running [OF kernel_ok_sample this] show ?thesis by simp
qed
end
