(* ===== verification/Boot.thy ===== *)
theory Boot
  imports Kernel
begin

text \<open>
  The start-up sequence as a whole: from cleared globals and a well-formed list of boot tags, \<open>_start\<close>
  comes to the start of the boot module with the invariants of the running kernel, and to its idle loop
  when it refuses the module.
\<close>

section \<open>What start-up leaves alone\<close>

lemma printsl_loop_returns:
  fixes s :: "'a vga_scheme"
  assumes "unat len < 4294967295"
  shows "i \<le> unat len \<Longrightarrow> \<exists>t. printsl_loop str att bg len (of_nat i) xT yT s = Some t \<and> same_but_io s t"
proof (induction "unat len - i" arbitrary: i xT yT s)
  case 0
  then have "i = unat len" by simp
  then have "unat (of_nat i + 1 :: u32) = Suc (unat len)"
    using assms unat_of_nat32 [of "Suc i"] by (simp add: add.commute)
  then have "\<not> of_nat i + 1 \<le> len" by (simp add: word_le_nat_alt)
  then show ?case by (subst printsl_loop.simps) simp
next
  case (Suc d)
  then have i: "i < unat len" by simp
  then have "unat (of_nat i + 1 :: u32) = Suc i"
    using assms unat_of_nat32 [of "Suc i"] by (simp add: add.commute)
  then have le: "of_nat i + 1 \<le> len" using i by (simp add: word_le_nat_alt)
  have IH: "\<exists>t. printsl_loop str att bg len (of_nat i + 1) xT yT s = Some t \<and> same_but_io s t"
    for xT yT and s :: "'a vga_scheme"
    using Suc.hyps(1) [of "Suc i" xT yT s] Suc.hyps(2) i by (simp add: add.commute)
  have "\<exists>t. printsl_loop str att bg len (of_nat i + 1) (xT + 1) yT (printc xT yT (str (of_nat i)) att bg s) = Some t \<and>
      same_but_io s t"
    using IH [of "xT + 1" yT "printc xT yT (str (of_nat i)) att bg s"] same_but_io_trans [OF printc_same] by blast
  with IH [of 0 "yT + 1" s] le show ?case
    by (subst printsl_loop.simps) auto
qed

lemma printsl_returns:
  "unat len < 4294967295 \<Longrightarrow> \<exists>t. printsl x y str att bg len s = Some t \<and> same_but_io s t"
  using printsl_loop_returns [of len 0 str att bg x y s] by (simp add: printsl_def)

lemma pmm_init_quiet: "quiet s (pmm_init stmap s)"
  by (rule pmm_init_same [of stmap s]) (simp add: quiet_def sched_same_def mouse_same_def)

lemma vmm_init_quiet: "quiet s (vmm_init s)"
  by (simp add: vmm_init_def quiet_def sched_same_def mouse_same_def)

lemma install_idt_quiet: "quiet s (install_idt isr b s)"
  by (simp add: install_idt_def init_int_desc_def init_uint_desc_def pic_remap_def write_port_def Let_def
      quiet_def sched_same_def mouse_same_def)

text \<open>What the last steps of \<open>_start\<close> keep: the invariants' fields, the interrupt flag and the table register.\<close>

definition calm :: "'a mouse_scheme \<Rightarrow> 'a mouse_scheme \<Rightarrow> bool" where
  "calm s t \<longleftrightarrow> quiet s t \<and> iflag t = iflag s \<and> idtr t = idtr s"

lemma calm_trans [trans]: "calm s t \<Longrightarrow> calm t u \<Longrightarrow> calm s u"
  using quiet_trans by (auto simp: calm_def)

lemma io_calm: "same_but_io s t \<Longrightarrow> calm s t"
  using io_quiet [of s t] same_but_io_machine [of s t] by (simp add: calm_def)

lemma port_calm: "calm s (write_port p v s)" "calm s (snd (read_port p s))"
  by (simp_all add: calm_def write_port_def read_port_def quiet_def sched_same_def mouse_same_def)

lemma mouse_wait_calm: "calm s (mouse_wait ty s)"
proof -
  have "calm s (mouse_wait_loop n ty s)" for n
  proof (induction n arbitrary: s)
    case (Suc n)
    then show ?case
      using port_calm(2) [of s "0x64"] calm_trans [OF port_calm(2) Suc.IH, of s "0x64"] by (simp add: Let_def split_beta)
  qed (simp add: calm_def)
  then show ?thesis by (simp add: mouse_wait_def)
qed

lemma mouse_write_calm: "calm s (mouse_write v s)"
  unfolding mouse_write_def
  by (rule calm_trans [OF calm_trans [OF calm_trans [OF mouse_wait_calm port_calm(1)] mouse_wait_calm] port_calm(1)])

lemma mouse_read_calm: "calm s (snd (mouse_read s))"
  unfolding mouse_read_def by (rule calm_trans [OF mouse_wait_calm port_calm(2)])

lemma init_mouse_calm:
  "calm (s\<lparr>mouse_x := ucast (fb_width s div 2), mouse_y := ucast (fb_height s div 2)\<rparr>) (init_mouse s)"
proof -
  have rw: "calm u (snd (mouse_read (mouse_write v u)))" for v and u :: "'a mouse_scheme"
    by (rule calm_trans [OF mouse_write_calm mouse_read_calm])
  have ww: "calm u (write_port p v (mouse_wait 1 u))" for p v and u :: "'a mouse_scheme"
    by (rule calm_trans [OF mouse_wait_calm port_calm(1)])
  show ?thesis
    unfolding init_mouse_def Let_def split_beta
    by (intro calm_trans [OF _ rw] calm_trans [OF _ mouse_read_calm] calm_trans [OF _ ww] ww)
qed

section \<open>The idle kernel\<close>

lemma calm_ok: "calm s t \<Longrightarrow> kernel_ok s \<Longrightarrow> kernel_ok t"
  using quiet_ok by (auto simp: calm_def)

lemma calm_fields: "calm s t \<Longrightarrow> processnum t = processnum s \<and> iflag t = iflag s \<and> idtr t = idtr s"
  by (simp add: calm_def quiet_def sched_same_def)

lemma print_calm: "calm s (print_hex buf y n att s)" "calm s (prints x z str att bg s)"
  by (simp_all add: io_calm print_hex_io prints_same)

lemma start_module_refuses:
  assumes ok: "kernel_ok s"
    and "elf_check s (load64 s (modules + 168)) (ucast (load64 s (modules + 176) - load64 s (modules + 168))) \<noteq> 0"
  obtains t where "start_module modules s = Some (Halted t)" "calm s t" "kernel_ok t"
proof -
  let ?b = "load64 s (modules + 168)" and ?n = "ucast (load64 s (modules + 176) - load64 s (modules + 168)) :: u32"
  obtain r where r: "run_elf ?b ?n 4096 s = Ret r s" using assms(2) by (simp add: run_elf_def)
  let ?v = "print_hex (locals s ''_start.buf'') 2 (ucast (loadelf_code r)) 0xff00ff s"
  let ?str = "load64 ?v (modules + 168) + 1"
  obtain w where w: "printsl 0 3 (\<lambda>i. load8 ?v (?str + ucast i)) 0xff00ff 0 3 ?v = Some w" "same_but_io ?v w"
    using printsl_returns [of 3] by fastforce
  have c: "calm s w" using calm_trans [OF print_calm(1) io_calm [OF w(2)]] .
  show thesis
    using that [of w] w(1) r c calm_ok [OF c ok] by (simp add: start_module_def Let_def)
qed

section \<open>The boot tags across the set-up of the memory manager\<close>

definition tag_of :: "'a machine_scheme \<Rightarrow> u64 list \<Rightarrow> u64 \<Rightarrow> u64" where
  "tag_of s ts ident = (case find (\<lambda>t. load64 s t = ident) ts of None \<Rightarrow> 0 | Some t \<Rightarrow> t)"

text \<open>The bytes the search for a tag reads.\<close>

definition tag_bytes :: "'a machine_scheme \<Rightarrow> u64 \<Rightarrow> u64 list \<Rightarrow> u64 set" where
  "tag_bytes s st ts = foot (vtr s) (st + 128) 8 \<union> (\<Union>t\<in>set ts. foot (vtr s) t 16)"

lemma get_tag_of:
  "tag_chain s (load64 s (st + 128)) ts \<Longrightarrow> stivale2_get_tag s st ident = Some (tag_of s ts ident)"
  unfolding stivale2_get_tag_def tag_of_def by (rule get_tag_loop_find)

lemma tags_cong:
  assumes "vtr t = vtr s" "\<And>x. x \<in> tag_bytes s st ts \<Longrightarrow> mem t x = mem s x"
  shows "load64 t (st + 128) = load64 s (st + 128)" "tag_chain t a ts = tag_chain s a ts" "tag_of t ts ident = tag_of s ts ident"
proof -
  have eq: "load64 t x = load64 s x" if "foot (vtr s) x 8 \<subseteq> tag_bytes s st ts" for x
    using that assms by (auto intro!: ld64_cong)
  have sub: "foot (vtr s) a 16 \<subseteq> tag_bytes s st ts" if "a \<in> set ts" for a
    using that by (auto simp: tag_bytes_def)
  have node: "load64 t a = load64 s a" "load64 t (a + 8) = load64 s (a + 8)" if "a \<in> set ts" for a
    using order_trans [OF foot_shift [of 0 8 16 "vtr s" a] sub [OF that]]
      order_trans [OF foot_shift [of 8 8 16 "vtr s" a] sub [OF that]] by (auto intro!: eq)
  show "load64 t (st + 128) = load64 s (st + 128)" by (rule eq) (simp add: tag_bytes_def)
  show "tag_of t ts ident = tag_of s ts ident"
    unfolding tag_of_def using node by (auto cong: find_cong)
  have "tag_chain t a us = tag_chain s a us" if "set us \<subseteq> set ts" for us a
    using that node by (induction us arbitrary: a) auto
  then show "tag_chain t a ts = tag_chain s a ts" by simp
qed

section \<open>From reset to the idle loop\<close>

text \<open>The cleared globals of a freshly loaded image.\<close>

definition bss :: "'a mouse_scheme \<Rightarrow> bool" where
  "bss s \<longleftrightarrow> \<not> panicked s \<and> processnum s = 0 \<and> process s = 0 \<and> length (processes s) = 100 \<and> length (processesinfo s) = 100 \<and>
     mouse_x s = 0 \<and> mouse_y s = 0 \<and> handler_cycle s = 0 \<and> discard_packet s = 0"

lemma bss_ok: "bss s \<Longrightarrow> kernel_ok s"
  by (simp add: bss_def kernel_ok_def sched_ok_def mouse_ok_def)

lemma bss_sched: "bss s \<Longrightarrow> sched_same s t \<Longrightarrow> sched_ok t"
  using bss_ok sched_same_ok by (auto simp: kernel_ok_def)

lemma bss_quiet: "bss s \<Longrightarrow> quiet s t \<Longrightarrow> bss t"
  by (simp add: bss_def quiet_def sched_same_def mouse_same_def)

lemma half_screen: "0 \<le> sint (ucast (w div 2 :: u16) :: i32) \<and> sint (ucast (w div 2 :: u16) :: i32) \<le> uint w"
proof -
  have "uint (w div 2) < 65536" by (rule order_less_le_trans [OF unsigned_less]) simp
  moreover have "- (2 ^ 31) \<le> uint (w div 2)" by (rule order_trans [of _ 0]) simp_all
  ultimately have "signed_take_bit 31 (uint (w div 2)) = uint (w div 2)"
    by (intro signed_take_bit_int_eq_self) simp_all
  then have "sint (ucast (w div 2) :: i32) = uint (w div 2)"
    by (simp add: sint_uint uint_up_ucast is_up)
  moreover have "u div 2 \<le> u" if "0 \<le> u" for u :: int using that by presburger
  ultimately show ?thesis by (simp add: uint_div)
qed

text \<open>The drivers set up on a screen.\<close>

lemma screen_set_up:
  fixes isr b fb
  assumes "bss s"
  defines "t \<equiv> init_mouse (install_idt isr b (init_screen fb s))"
  shows "kernel_ok t" "processnum t = 0" "iflag t" "idtr t = (4096, b)"
proof -
  define u where "u = install_idt isr b (init_screen fb s)"
  let ?v = "u\<lparr>mouse_x := ucast (fb_width u div 2), mouse_y := ucast (fb_height u div 2)\<rparr>"
  have "bss (init_screen fb s)" using assms(1) by (simp add: bss_def init_screen_def Let_def)
  from bss_quiet [OF this install_idt_quiet] have u: "bss u" by (simp add: u_def)
  then have "kernel_ok ?v"
    using half_screen bss_ok [OF u] by (simp add: kernel_ok_def mouse_ok_def sched_ok_def bss_def)
  moreover have c: "calm ?v t" using init_mouse_calm [of u] by (simp add: t_def u_def)
  ultimately show "kernel_ok t" using calm_ok by blast
  show "processnum t = 0" using calm_fields [OF c] u by (simp add: bss_def)
  have "iflag u \<and> idtr u = (4096, b)"
    unfolding u_def install_idt_def Let_def
    by (simp add: pic_remap_fields init_int_desc_def init_uint_desc_def INT_DESC_COUNT_def)
  then show "iflag t" "idtr t = (4096, b)" using calm_fields [OF c] by simp_all
qed

text \<open>
  C9. The start-up sequence. The hypotheses: cleared globals, a list of boot tags that ends in a null pointer,
  and a memory map \<open>pmm_init\<close> can work from, whose bitmap overwrites none of the tags. Without a
  framebuffer tag \<open>_start\<close> stops right after the set-up of memory. With one it comes, whatever the devices
  answer, to \<open>run_elf\<close> for the second module of the modules tag in a state \<open>u\<close> that has the invariants of the running
  kernel, no process, interrupts on and the descriptor table loaded; and if \<open>run_elf\<close> refuses that module,
  \<open>_start\<close> reaches its idle loop with all of these still true. About an accepted module the theorem says nothing: its
  headers are not checked further, and what they make the loader write is not bounded.
\<close>

theorem kernel_start_sequence:
  assumes "bss s" "settimer 10000 s = Ret () s1" "tag_chain s1 (load64 s1 (st + 128)) ts"
    and s2: "s2 = s1\<lparr>hhdm := load64 s1 (tag_of s1 ts HHDM_ID + 16)\<rparr>"
    and map: "boot_map_ok (tag_of s1 ts MEMMAP_ID) s2"
    and apart: "\<forall>t. t = pmm_init (tag_of s1 ts MEMMAP_ID) s2 \<longrightarrow>
      tag_bytes s1 st ts \<inter> foot (vtr s1) (pmm_map t) (unat (pmm_map_size t)) = {}"
    and s3: "s3 = vmm_init (pmm_init (tag_of s1 ts MEMMAP_ID) s2)"
    and u: "u = prints 0 0 (lit ''Booted kernel successfully!'') 0x00ff00 0
      (init_mouse (install_idt isr b (init_screen (tag_of s1 ts FRAMEBUFFER_ID) s3)))"
    and m: "m = tag_of s1 ts MODULES_ID"
  shows "if tag_of s1 ts FRAMEBUFFER_ID = 0 then kernel_start isr b st s = Some (Halted s3)
    else kernel_start isr b st s = start_module m u \<and> kernel_ok u \<and> processnum u = 0 \<and> iflag u \<and> idtr u = (4096, b) \<and>
      (elf_check u (load64 u (m + 168)) (ucast (load64 u (m + 176) - load64 u (m + 168))) \<noteq> 0 \<longrightarrow>
        (\<exists>t. kernel_start isr b st s = Some (Halted t) \<and> kernel_ok t \<and> processnum t = 0 \<and> iflag t \<and> idtr t = (4096, b)))"
proof -
  let ?mm = "tag_of s1 ts MEMMAP_ID" and ?fb = "tag_of s1 ts FRAMEBUFFER_ID"
  let ?i = "init_mouse (install_idt isr b (init_screen ?fb s3))"
  have "quiet s s1"
    using assms(2) by (auto simp: settimer_def Let_def quiet_def sched_same_def mouse_same_def write_port_def)
  also have "quiet s1 s2" by (simp add: s2 quiet_def sched_same_def mouse_same_def)
  also have "quiet s2 s3" unfolding s3 by (rule quiet_trans [OF pmm_init_quiet vmm_init_quiet])
  finally have "bss s3" using bss_quiet assms(1) by blast
  have v: "vtr s3 = vtr s1"
    by (rule pmm_init_same [of ?mm s2]) (simp add: s3 vmm_init_def s2)
  have "mem s3 x = mem s1 x" if "x \<in> tag_bytes s1 st ts" for x
  proof -
    have "x \<notin> foot (vtr s2) (pmm_map (pmm_init ?mm s2)) (unat (pmm_map_size (pmm_init ?mm s2)))"
      using apart that by (auto simp: s2)
    from pmm_init_spec(1) [OF map refl refl this] show ?thesis by (simp add: s3 vmm_init_def s2)
  qed
  note same = tags_cong [OF v this]
  have tags: "stivale2_get_tag s3 st i = Some (tag_of s1 ts i)" "stivale2_get_tag s1 st i = Some (tag_of s1 ts i)" for i
    using get_tag_of [of s3 st ts i] get_tag_of [OF assms(3), of i] assms(3) by (simp_all only: same)
  have start: "kernel_start isr b st s = (if ?fb = 0 then Some (Halted s3) else start_module m u)"
    by (simp add: kernel_start_def assms(2) tags s2 [symmetric] s3 [symmetric] u m Let_def)
  note S = screen_set_up [OF \<open>bss s3\<close>, of isr b ?fb]
  have c: "calm ?i u" unfolding u by (rule print_calm)
  from calm_ok [OF c S(1)] calm_fields [OF c] S(2-4)
  have ok: "kernel_ok u" "processnum u = 0" "iflag u" "idtr u = (4096, b)" by simp_all
  have "\<exists>t. start_module m u = Some (Halted t) \<and> kernel_ok t \<and> processnum t = 0 \<and> iflag t \<and> idtr t = (4096, b)"
    if "elf_check u (load64 u (m + 168)) (ucast (load64 u (m + 176) - load64 u (m + 168))) \<noteq> 0"
  proof (rule start_module_refuses [OF ok(1) that])
    fix t
    assume t: "start_module m u = Some (Halted t)" "calm u t" "kernel_ok t"
    then show ?thesis using calm_fields [OF t(2)] ok by simp
  qed
  then show ?thesis unfolding start using ok by simp
qed

text \<open>
  A machine for the witness: the globals of a fresh image, and four tags: at \<open>0x40000\<close> a memory map
  of one region, at \<open>0x41000\<close> the higher half, at \<open>0x42000\<close> a screen of no pixels and at \<open>0x43000\<close> the modules, of which
  the second has 200 bytes of zeros.
\<close>

definition boot_words :: "(u64 \<times> u64) list" where
  "boot_words = [(0x50080, 0x40000), (0x40000, MEMMAP_ID), (0x40008, 0x41000), (0x40010, 1), (0x40018, 0x1000),
     (0x40020, 0x7000), (0x40028, 1), (0x41000, HHDM_ID), (0x41008, 0x42000), (0x41010, 0x100000), (0x42000, FRAMEBUFFER_ID),
     (0x42008, 0x43000), (0x43000, MODULES_ID), (0x430A8, 0x60000), (0x430B0, 0x600C8)]"

definition boot_memory :: memory where
  "boot_memory p = (case find (\<lambda>(a, v). p - a < 8) boot_words of None \<Rightarrow> 0
     | Some (a, v) \<Rightarrow> ucast (drop_bit (8 * unat (p - a)) v))"

definition boot_machine :: intr where
  "boot_machine = intr_sample\<lparr>processnum := 0, process := 0, mouse_x := 0, mouse_y := 0, xlat := (\<lambda>_ a. a AND 0xFFFFF),
     mem := boot_memory\<rparr>"

lemma boot_loads:
  assumes "mem t = boot_memory" "vtr t = (\<lambda>a. a AND 0xFFFFF)"
  shows "load64 t 0x50080 = 0x40000" "load64 t 0x40000 = MEMMAP_ID" "load64 t 0x40008 = 0x41000"
    "load64 t 0x41000 = HHDM_ID" "load64 t 0x41008 = 0x42000" "load64 t 0x41010 = 0x100000"
    "load64 t 0x42000 = FRAMEBUFFER_ID" "load64 t 0x42008 = 0x43000" "load64 t 0x43000 = MODULES_ID" "load64 t 0x43008 = 0"
    "memmap_entries t 0x40000 = 1" "memmap_at t 0x40000 0 = \<lparr>me_base = 0x1000, me_length = 0x7000, me_type = 1\<rparr>"
    "memmap_at t 0x40000 1 = \<lparr>me_base = 0, me_length = 0, me_type = 0\<rparr>"
    "load16 t 0x42018 = 0" "load16 t 0x4201A = 0" "load16 t 0x4201C = 0" "load64 t 0x42010 = 0"
  by (simp_all add: memmap_entries_def memmap_at_def Let_def assms ld64_def ld32_def ld16_def ld_bytes_def ld8_def upt_rec
      boot_memory_def boot_words_def MEMMAP_ID_def HHDM_ID_def FRAMEBUFFER_ID_def MODULES_ID_def)

text \<open>The module's place is read and its first byte is no magic number, where the bitmap's byte is not in the way.\<close>

lemma boot_module:
  assumes "\<And>x. x \<noteq> 0x1000 \<Longrightarrow> mem t x = boot_memory x" "vtr t = (\<lambda>a. a AND 0xFFFFF)"
  shows "load64 t 0x430A8 = 0x60000" "load64 t 0x430B0 = 0x600C8" "load8 t 0x60000 = 0"
  by (simp_all add: assms ld64_def ld_bytes_def ld8_def upt_rec boot_memory_def boot_words_def)

lemma init_mouse_mem: "mem (init_mouse s) = mem s \<and> xlat (init_mouse s) = xlat s \<and> cr3 (init_mouse s) = cr3 s"
proof -
  have w: "mem (mouse_wait ty u) = mem u \<and> xlat (mouse_wait ty u) = xlat u \<and> cr3 (mouse_wait ty u) = cr3 u"
    for ty and u :: "'a mouse_scheme"
    by (rule mouse_wait_reads [of ty u]) simp
  then show ?thesis
    by (simp add: init_mouse_def Let_def split_beta mouse_read_def read_port_def mouse_write_def write_port_def)
qed

lemma install_idt_mem: "mem (install_idt isr b s) = mem s \<and> xlat (install_idt isr b s) = xlat s \<and> cr3 (install_idt isr b s) = cr3 s"
  by (simp add: install_idt_def init_int_desc_def init_uint_desc_def pic_remap_def write_port_def Let_def)

text \<open>Setting up a screen of no pixels and printing on it writes no memory.\<close>

lemma no_screen:
  assumes "load16 s (fb + 24) = 0" "load16 s (fb + 26) = 0" "length str < 1000"
    and u: "u = prints 0 0 str att bg (init_mouse (install_idt isr b (init_screen fb s)))"
  shows "mem u = mem s" "vtr u = vtr s"
proof -
  let ?d = "install_idt isr b (init_screen fb s)" and ?i = "init_mouse (install_idt isr b (init_screen fb s))"
  have i: "mem ?i = mem s" "vtr ?i = vtr s"
    using init_mouse_mem [of ?d] install_idt_mem [of isr b "init_screen fb s"] by (simp_all add: init_screen_def Let_def)
  have "fb_width ?d = 0 \<and> fb_height ?d = 0"
    using install_idt_quiet [of "init_screen fb s" isr b] assms(1,2)
    by (simp add: quiet_def mouse_same_def init_screen_def Let_def)
  then have "fb_width ?i = 0 \<and> fb_height ?i = 0"
    using init_mouse_calm [of ?d] by (simp add: calm_def quiet_def mouse_same_def)
  then have fb: "fb_ok ?i" "fb_bytes ?i = 0" by (simp_all add: fb_ok_def fb_bytes_def inj_at_def)
  have "mem u p = mem s p" for p
    using prints_other [OF fb(1), of 0 0 str p att bg] assms(3) fb(2) i(1) by (simp add: u)
  then show "mem u = mem s" by (rule ext)
  show "vtr u = vtr s"
    using same_but_io_machine [OF prints_same [of ?i 0 0 str att bg]] i(2) by (simp add: u)
qed

theorem kernel_start_sequence_witness:
  "\<exists>t. kernel_start (\<lambda>v. 0x8000) 0x9000 0x50000 boot_machine = Some (Halted t) \<and> kernel_ok t \<and> iflag t"
proof -
  obtain s1 where s1: "settimer 10000 boot_machine = Ret () s1"
    by (simp add: settimer_def Let_def)
  then have m: "mem s1 = boot_memory" "vtr s1 = (\<lambda>a. a AND 0xFFFFF)"
    by (auto simp: settimer_def Let_def write_port_def boot_machine_def)
  note L = boot_loads [OF m]
  define ts :: "u64 list" where "ts = [0x40000, 0x41000, 0x42000, 0x43000]"
  have tags: "tag_of s1 ts MEMMAP_ID = 0x40000" "tag_of s1 ts HHDM_ID = 0x41000" "tag_of s1 ts FRAMEBUFFER_ID = 0x42000"
    "tag_of s1 ts MODULES_ID = 0x43000"
    by (simp_all add: tag_of_def ts_def L MEMMAP_ID_def HHDM_ID_def FRAMEBUFFER_ID_def MODULES_ID_def)
  define s2 where "s2 = s1\<lparr>hhdm := load64 s1 (tag_of s1 ts HHDM_ID + 16)\<rparr>"
  have m2: "mem s2 = boot_memory" "vtr s2 = (\<lambda>a. a AND 0xFFFFF)" by (simp_all add: s2_def m)
  have one: "one_region s2"
    using boot_loads [OF m2] by (simp add: one_region_def m2) (simp add: s2_def tags L)
  note I = one_region_init [OF one]
  have map: "boot_map_ok (tag_of s1 ts MEMMAP_ID) s2" using one_region_ok [OF one] by (simp add: tags)
  define s3 where "s3 = vmm_init (pmm_init (tag_of s1 ts MEMMAP_ID) s2)"
  have v3: "vtr s3 = (\<lambda>a. a AND 0xFFFFF)"
    by (rule pmm_init_same [of "tag_of s1 ts MEMMAP_ID" s2]) (simp add: s3_def vmm_init_def m2)
  have "mem s3 x = boot_memory x" if "x \<noteq> 0x1000" for x
    using pmm_init_spec(1) [OF map refl refl, of x] that by (simp add: s3_def vmm_init_def m2 tags I foot_def lessThan_Suc)
  note M3 = this
  have fb: "load16 s3 (0x42000 + 24) = 0" "load16 s3 (0x42000 + 26) = 0"
    by (simp_all add: v3 ld16_def ld_bytes_def ld8_def upt_rec M3 boot_memory_def boot_words_def)
  define u where "u = prints 0 0 (lit ''Booted kernel successfully!'') 0x00ff00 0
      (init_mouse (install_idt (\<lambda>v. 0x8000) 0x9000 (init_screen (tag_of s1 ts FRAMEBUFFER_ID) s3)))"
  have "length (lit ''Booted kernel successfully!'') < 1000" by (simp add: lit_def)
  from no_screen [OF fb this, where att = "0x00ff00" and bg = 0 and isr = "\<lambda>v. 0x8000" and b = "0x9000" and u = u]
  have u: "mem u x = boot_memory x" if "x \<noteq> 0x1000" for x
    using M3 that by (simp add: u_def tags)
  have "vtr u = (\<lambda>a. a AND 0xFFFFF)" 
    using no_screen [OF fb \<open>length _ < _\<close>, where att = "0x00ff00" and bg = 0 and isr = "\<lambda>v. 0x8000" and b = "0x9000" and u = u] v3 by (simp add: u_def tags)
  note module = boot_module [OF u this]
  have refused: "elf_check u (load64 u (0x43000 + 168)) (ucast (load64 u (0x43000 + 176) - load64 u (0x43000 + 168))) \<noteq> 0"
    by (simp add: module elf_check_def)
  have "bss boot_machine"
    by (simp add: bss_def boot_machine_def) (simp add: intr_sample_def keyboard.defs)
  moreover have "tag_chain s1 (load64 s1 (0x50000 + 128)) ts" by (simp add: ts_def L)
  moreover have "\<forall>t. t = pmm_init (tag_of s1 ts MEMMAP_ID) s2 \<longrightarrow>
      tag_bytes s1 0x50000 ts \<inter> foot (vtr s1) (pmm_map t) (unat (pmm_map_size t)) = {}"
    by (simp add: tags I) (simp add: tag_bytes_def ts_def m foot_def lessThan_nat_numeral lessThan_Suc)
  ultimately show ?thesis
    using kernel_start_sequence [OF _ s1 _ s2_def map _ s3_def u_def refl, where st = "0x50000"] refused tags by auto
qed

end
