(* ===== verification/Segments.thy ===== *)
theory Segments
  imports Tasks
begin

text \<open>
  What the ELF loader of \<open>tasks/tasks.c\<close> builds: the address space of the new process, as the
  processor's walk of its tables finds it, and the bytes behind it. The file is the \<open>n\<close> bytes at
  \<open>data\<close>; it, the screen and the loader's local arrays lie where neither a page table, the frame bitmap
  nor a free frame is (\<open>foreign\<close>).
\<close>

section \<open>A well-formed file\<close>

definition ph_base :: "'a machine_scheme \<Rightarrow> u64 \<Rightarrow> u64" where
  "ph_base s data = data + load64 s (data + 32)"

definition ph_num :: "'a machine_scheme \<Rightarrow> u64 \<Rightarrow> nat" where
  "ph_num s data = unat (load16 s (data + 56))"

definition loadable :: "'a machine_scheme \<Rightarrow> u64 \<Rightarrow> nat \<Rightarrow> bool" where
  "loadable s data i \<longleftrightarrow> i < ph_num s data \<and> ph_type s (ph_base s data) i = 1 \<and> ph_memsz s (ph_base s data) i \<noteq> 0"

text \<open>
  Headers and segments lie inside the file; a segment takes no more of the file than of memory, and
  no more than the one frame the loader gives it.
\<close>

definition elf_ok :: "'a machine_scheme \<Rightarrow> u64 \<Rightarrow> nat \<Rightarrow> bool" where
  "elf_ok s data n \<longleftrightarrow> 64 \<le> n \<and> unat (load64 s (data + 32)) + 56 * ph_num s data \<le> n \<and>
     (\<forall>i. loadable s data i \<longrightarrow>
        unat (ph_offset s (ph_base s data) i) + unat (ph_filesz s (ph_base s data) i) \<le> n \<and>
        ph_filesz s (ph_base s data) i \<le> ph_memsz s (ph_base s data) i \<and> ph_memsz s (ph_base s data) i \<le> 4096)"

text \<open>The file and the state after a change elsewhere.\<close>

definition file_same :: "'a machine_scheme \<Rightarrow> u64 \<Rightarrow> nat \<Rightarrow> 'a machine_scheme \<Rightarrow> bool" where
  "file_same s data n t \<longleftrightarrow> vtr t = vtr s \<and> (\<forall>x\<in>foot (vtr s) data n. mem t x = mem s x)"

lemma load_cong:
  assumes "file_same s a n t"
  shows "k + 8 \<le> n \<Longrightarrow> load64 t (a + of_nat k) = load64 s (a + of_nat k)"
    and "k + 4 \<le> n \<Longrightarrow> load32 t (a + of_nat k) = load32 s (a + of_nat k)"
    and "k + 2 \<le> n \<Longrightarrow> load16 t (a + of_nat k) = load16 s (a + of_nat k)"
    and "k < n \<Longrightarrow> load8 t (a + of_nat k) = load8 s (a + of_nat k)"
proof -
  have v: "vtr t = vtr s" and m: "\<And>x. x \<in> foot (vtr s) a n \<Longrightarrow> mem t x = mem s x"
    using assms by (simp_all add: file_same_def)
  have b: "ld_bytes (vtr s) (mem t) (a + of_nat k) m = ld_bytes (vtr s) (mem s) (a + of_nat k) m" if "k + m \<le> n" for m
    using foot_shift [OF that] m by (intro ld_bytes_cong) blast
  show "k + 8 \<le> n \<Longrightarrow> load64 t (a + of_nat k) = load64 s (a + of_nat k)"
    "k + 4 \<le> n \<Longrightarrow> load32 t (a + of_nat k) = load32 s (a + of_nat k)"
    "k + 2 \<le> n \<Longrightarrow> load16 t (a + of_nat k) = load16 s (a + of_nat k)"
    by (simp_all only: v ld64_def ld32_def ld16_def b)
  show "k < n \<Longrightarrow> load8 t (a + of_nat k) = load8 s (a + of_nat k)"
    using m in_foot [of k n "vtr s" a] by (simp add: v ld8_def)
qed

lemma file_same_header:
  assumes ok: "elf_ok s data n" and same: "file_same s data n t"
  shows "ph_base t data = ph_base s data" "ph_num t data = ph_num s data" "load64 t (data + 24) = load64 s (data + 24)"
proof -
  have n: "64 \<le> n" using ok by (simp add: elf_ok_def)
  note c = load_cong [OF same]
  show "ph_base t data = ph_base s data" using c(1) [of 32] n by (simp add: ph_base_def)
  show "ph_num t data = ph_num s data" using c(3) [of 56] n by (simp add: ph_num_def)
  show "load64 t (data + 24) = load64 s (data + 24)" using c(1) [of 24] n by simp
qed

lemma file_same_segment:
  assumes ok: "elf_ok s data n" and same: "file_same s data n t" and i: "i < ph_num s data"
  defines "p \<equiv> ph_base s data"
  shows "ph_type t p i = ph_type s p i" "ph_offset t p i = ph_offset s p i" "ph_vaddr t p i = ph_vaddr s p i"
    "ph_filesz t p i = ph_filesz s p i" "ph_memsz t p i = ph_memsz s p i"
proof -
  define q where "q = unat (load64 s (data + 32)) + 56 * i"
  have q: "ph_entry p i = data + of_nat q"
    by (simp add: ph_entry_def p_def ph_base_def q_def)
  have le: "q + 56 \<le> n" using ok i by (simp add: elf_ok_def q_def)
  have a: "data + of_nat q + 8 = data + of_nat (q + 8)" "data + of_nat q + 16 = data + of_nat (q + 16)"
    "data + of_nat q + 32 = data + of_nat (q + 32)" "data + of_nat q + 40 = data + of_nat (q + 40)" by simp_all
  note c = load_cong [OF same]
  show "ph_type t p i = ph_type s p i"
    unfolding ph_type_def q using le c(2) by simp
  show "ph_offset t p i = ph_offset s p i" "ph_vaddr t p i = ph_vaddr s p i"
    "ph_filesz t p i = ph_filesz s p i" "ph_memsz t p i = ph_memsz s p i"
    unfolding ph_offset_def ph_vaddr_def ph_filesz_def ph_memsz_def q a using le by (simp_all add: c(1) del: of_nat_add)
qed

section \<open>One segment\<close>

text \<open>Filling a frame: a copy through the window, then zeros through the identity map.\<close>

lemma fill_frame:
  assumes pm: "pmm_ok t" and win: "\<forall>a. frame_of a < nframes t \<longrightarrow> vtr t (a + hhdm t) = a"
    and f: "f = of_nat (4096 * frame_of f)" "frame_of f < nframes t"
    and le: "fs \<le> ms" "ms \<le> 4096"
    and src: "\<forall>x\<in>foot (vtr t) src (unat fs). frame_of x \<noteq> frame_of f"
  defines "u \<equiv> memset_st (f + fs) 0 (ms - fs) (memcpy_st (f + hhdm t) src fs t)"
  shows "same_but_mem t u"
    and "frame_of x \<noteq> frame_of f \<Longrightarrow> mem u x = mem t x"
    and "frame_of x \<noteq> frame_of f \<Longrightarrow> mem (memcpy_st (f + hhdm t) src fs t) x = mem t x"
    and "k < unat fs \<Longrightarrow> mem u (f + of_nat k) = load8 t (src + of_nat k)"
    and "unat fs \<le> k \<Longrightarrow> k < 4096 \<Longrightarrow> mem u (f + of_nat k) = (if k < unat ms then 0 else mem t (f + of_nat k))"
proof -
  have f32: "frame_of f < 4294967296" using f(2) pmm_okD(1) [OF pm] by simp
  have fsb: "unat fs \<le> unat ms" "unat ms \<le> 4096" "0 + unat fs \<le> 4096"
    using le by (simp_all add: word_le_nat_alt)
  define m1 where "m1 = mem (memcpy_st (f + hhdm t) src fs t)"
  note C = copy_to_frame [OF win f f32 fsb(3) src, simplified, folded m1_def]
  have "foot (vtr t) (f + fs) (unat (ms - fs)) = foot (\<lambda>a. a) (f + of_nat (unat fs)) (unat ms - unat fs)"
    unfolding foot_def unat_sub [OF le(1)]
  proof (rule image_cong [OF refl])
    fix j assume "j \<in> {..<unat ms - unat fs}"
    then have "unat fs + j < 4096" using fsb by auto
    moreover have "f + fs + of_nat j = f + of_nat (unat fs + j)" by simp
    ultimately show "vtr t (f + fs + of_nat j) = f + of_nat (unat fs) + of_nat j"
      using pm frame_at [OF f(1) f32] f(2) unfolding pmm_ok_def by (simp only:) (simp add: add.assoc)
  qed
  then have u: "mem u x = (if x \<in> foot (\<lambda>a. a) (f + of_nat (unat fs)) (unat ms - unat fs) then 0 else m1 x)" for x
    unfolding u_def mem_memset_st m1_def memcpy_st_def by simp
  have at: "f + of_nat k \<in> foot (\<lambda>a. a) (f + of_nat (unat fs)) (unat ms - unat fs) \<longleftrightarrow> unat fs \<le> k \<and> k < unat ms"
    if "k < 4096" for k
    using offset_in_foot [of k 4096 "unat fs" "unat ms - unat fs" f] that fsb by simp
  show "same_but_mem t u"
    unfolding u_def using same_but_mem_trans memset_st_same memcpy_st_same by blast
  show m1x: "mem (memcpy_st (f + hhdm t) src fs t) x = mem t x" if "frame_of x \<noteq> frame_of f"
    unfolding m1_def [symmetric] by (rule C(1) [OF that])
  show "mem u x = mem t x" if "frame_of x \<noteq> frame_of f"
  proof -
    have "x \<notin> foot (\<lambda>a. a) (f + of_nat (unat fs)) (unat ms - unat fs)"
    proof
      assume "x \<in> foot (\<lambda>a. a) (f + of_nat (unat fs)) (unat ms - unat fs)"
      then obtain j where "x = f + of_nat (unat fs + j)" "unat fs + j < 4096"
        using fsb by (auto simp: foot_def add.assoc)
      then show False using that frame_at [OF f(1) f32] by metis
    qed
    then show ?thesis using C(1) [OF that] by (simp add: u)
  qed
  show "mem u (f + of_nat k) = load8 t (src + of_nat k)" if "k < unat fs"
    using that fsb at [of k] C(2) [of k] by (simp add: u)
  show "mem u (f + of_nat k) = (if k < unat ms then 0 else mem t (f + of_nat k))" if "unat fs \<le> k" "k < 4096"
    using that at [of k] C(3) [of k] by (simp add: u)
qed

lemma keeps_file:
  assumes "keeps s pt t" "\<forall>x\<in>foot (vtr s) data n. foreign s pt x"
  shows "file_same s data n t" "\<forall>x\<in>foot (vtr t) data n. foreign t pt x"
  using assms same_but_io_machine [of s t] by (auto simp: keeps_def file_same_def)

lemma frame_no_flags:
  assumes "f = of_nat (4096 * k)"
  shows "f AND NOT PAG_4K_FLAGS = f"
proof -
  have f: "f = push_bit 12 (of_nat k)" by (simp add: assms push_bit_frame)
  have m: "PAG_4K_FLAGS = mask 10" by (simp add: PAG_4K_FLAGS_def mask_eq_exp_minus_1)
  show ?thesis
    unfolding f m by (rule bit_word_eqI) (auto simp: bit_and_iff bit_not_iff bit_mask_iff bit_push_bit_iff)
qed

lemma ALIGNUP_one:
  assumes "m \<noteq> 0" "m \<le> 4096"
  shows "ALIGNUP m = 1"
proof -
  have u: "0 < unat m" "unat m \<le> 4096"
    using assms by (simp_all add: unat_gt_0 word_le_nat_alt)
  have "unat (ALIGN m + m mod 4096) = 1024 * (unat m div 1024) + unat m mod 4096"
    using u by (simp add: unat_word_ariths unat_ALIGN unat_mod_distrib)
  also have "\<dots> \<noteq> 0"
    using u by (cases "unat m < 1024") auto
  finally have "ALIGN m + m mod 4096 \<noteq> 0" by auto
  then show ?thesis by (simp add: ALIGNUP_def)
qed

text \<open>The bytes of the \<open>i\<close>-th segment in the frame \<open>f\<close>: those of the file, then zeros to the end.\<close>

definition loaded :: "'a machine_scheme \<Rightarrow> u64 \<Rightarrow> nat \<Rightarrow> memory \<Rightarrow> u64 \<Rightarrow> bool" where
  "loaded s data i m f \<longleftrightarrow> (\<forall>k<4096. m (f + of_nat k) =
     (if k < unat (ph_filesz s (ph_base s data) i) then load8 s (data + ph_offset s (ph_base s data) i + of_nat k) else 0))"

text \<open>The frame of a segment, allocated and mapped.\<close>

lemma segment_page:
  assumes ok: "paging_ok s pt" and free: "4 \<le> free_frames s" and c: "pmalloc 1 s = (f, s1)"
    and s2: "s2 = map_block pt v f 3 s1"
  shows "paging_ok s2 pt" "keeps s pt s2" "free_frames s \<le> free_frames s2 + 4"
    "f = of_nat (4096 * frame_of f)" "frame_of f < nframes s2" "frame_of f < 4294967296"
    "translate (mem s2) pt w = (if vidx w = vidx v then Some (f OR 3) else translate (mem s) pt w)"
    "frame_of x = frame_of f \<Longrightarrow> mem s2 x = 0" "frame_of x = frame_of f \<Longrightarrow> foreign s2 pt x"
    "frame_of x = frame_of f \<Longrightarrow> \<not> foreign s pt x"
proof -
  have "0 < free_frames s" using free by simp
  note A = alloc_frame [OF ok c this]
  have "3 \<le> free_frames s1" using A(6) free by simp
  note M = map_block_spec [OF A(1) this, of v f 3, folded s2]
  show "paging_ok s2 pt" "f = of_nat (4096 * frame_of f)" using M(1) A(4) .
  show k: "keeps s pt s2" using keeps_trans [OF A(2) M(3)] .
  show "free_frames s \<le> free_frames s2 + 4" using A(6) M(4) by simp
  show "frame_of f < nframes s2" "frame_of f < 4294967296"
    using A(5) same_but_io_pmm [OF keepsD(3) [OF k]] pmm_okD(1) [OF paging_okD(1) [OF ok]] by simp_all
  show "translate (mem s2) pt w = (if vidx w = vidx v then Some (f OR 3) else translate (mem s) pt w)"
    using M(2) [of w] A(3) frame_no_flags [OF A(4)] by (simp add: PAG_PRESENT_def or.assoc)
  show "frame_of x = frame_of f \<Longrightarrow> mem s2 x = 0" "frame_of x = frame_of f \<Longrightarrow> foreign s2 pt x"
    using A(7,8) keepsD(1,2) [OF M(3)] by simp_all
  show "frame_of x = frame_of f \<Longrightarrow> \<not> foreign s pt x" by (rule A(9))
qed

text \<open>The segment's bytes of the file.\<close>

definition segment_bytes :: "'a machine_scheme \<Rightarrow> u64 \<Rightarrow> nat \<Rightarrow> u64 set" where
  "segment_bytes s data i =
     foot (vtr s) (data + ph_offset s (ph_base s data) i) (unat (ph_filesz s (ph_base s data) i))"

lemma segment_bytes_file:
  assumes "elf_ok s data n" "loadable s data i"
  shows "segment_bytes s data i \<subseteq> foot (vtr s) data n"
  using foot_shift [of "unat (ph_offset s (ph_base s data) i)"] assms by (auto simp: elf_ok_def segment_bytes_def)

text \<open>
  One turn of the loop with the header fields of the state before it: the frame is filled, and neither
  the mapping nor the copy changes the file.
\<close>

lemma elf_segment_eq:
  assumes elf: "elf_ok s data n" and l: "loadable s data i" and c: "pmalloc 1 s = (f, s1)"
    and s2: "s2 = map_block pt (ph_vaddr s p i) f 3 s1" and p: "p = ph_base s data"
    and same: "file_same s data n s1" "file_same s data n s2"
      "file_same s data n (memcpy_st (f + hhdm s2) (data + ph_offset s p i) (ph_filesz s p i) s2)"
  shows "elf_segment pt data p i s = memset_st (f + ph_filesz s p i) 0 (ph_memsz s p i - ph_filesz s p i)
    (memcpy_st (f + hhdm s2) (data + ph_offset s p i) (ph_filesz s p i) s2)"
proof -
  have i: "i < ph_num s data" and l': "ph_type s p i = 1" "ph_memsz s p i \<noteq> 0" "ph_memsz s p i \<le> 4096"
    using l elf by (auto simp: loadable_def elf_ok_def p)
  note F = file_same_segment [OF elf same(1) i, folded p] file_same_segment [OF elf same(2) i, folded p]
    file_same_segment [OF elf same(3) i, folded p]
  show ?thesis
    using l' by (simp add: elf_segment_def ALIGNUP_one c F s2 [symmetric] PHYS_TO_VIRT_def)
qed

lemma segment_filled:
  assumes elf: "elf_ok s data n" and l: "loadable s data i" and p: "p = ph_base s data"
    and pg: "paging_ok s2 pt" and f: "f = of_nat (4096 * frame_of f)" "frame_of f < nframes s2" "frame_of f < 4294967296"
    and zero: "\<forall>x. frame_of x = frame_of f \<longrightarrow> mem s2 x = 0"
    and same: "file_same s data n s2" and apart: "\<forall>x\<in>foot (vtr s) data n. frame_of x \<noteq> frame_of f"
  defines "s3 \<equiv> memcpy_st (f + hhdm s2) (data + ph_offset s p i) (ph_filesz s p i) s2"
  defines "t \<equiv> memset_st (f + ph_filesz s p i) 0 (ph_memsz s p i - ph_filesz s p i) s3"
  shows "same_but_mem s2 t" "frame_of x \<noteq> frame_of f \<Longrightarrow> mem t x = mem s2 x" "file_same s data n s3"
    "loaded s data i (mem t) f"
proof -
  have v: "vtr s2 = vtr s" and seg: "ph_filesz s p i \<le> ph_memsz s p i" "ph_memsz s p i \<le> 4096"
    and inside: "unat (ph_offset s p i) + unat (ph_filesz s p i) \<le> n"
    using same elf l by (auto simp: file_same_def elf_ok_def p)
  have src: "\<forall>x\<in>foot (vtr s2) (data + ph_offset s p i) (unat (ph_filesz s p i)). frame_of x \<noteq> frame_of f"
    using segment_bytes_file [OF elf l] apart by (auto simp: segment_bytes_def v p)
  have win: "\<forall>a. frame_of a < nframes s2 \<longrightarrow> vtr s2 (a + hhdm s2) = a" using paging_okD(2) [OF pg] by blast
  note W = fill_frame [OF paging_okD(1) [OF pg] win f(1,2) seg src, folded s3_def, folded t_def]
  show "same_but_mem s2 t" "frame_of x \<noteq> frame_of f \<Longrightarrow> mem t x = mem s2 x" using W(1,2) .
  have "vtr s3 = vtr s2" by (simp add: s3_def memcpy_st_def)
  then show "file_same s data n s3" using same apart W(3) v by (simp add: file_same_def)
  have "mem t (f + of_nat k) = (if k < unat (ph_filesz s p i) then load8 s (data + ph_offset s p i + of_nat k) else 0)"
    if k: "k < 4096" for k
  proof (cases "k < unat (ph_filesz s p i)")
    case True
    have "load8 s2 (data + of_nat (unat (ph_offset s p i) + k)) = load8 s (data + of_nat (unat (ph_offset s p i) + k))"
      by (rule load_cong(4) [OF same]) (use True inside in simp)
    then show ?thesis using W(4) [OF True] True by (simp add: add.assoc)
  next
    case False
    then show ?thesis using W(5) [of k] k zero frame_at [OF f(1,3) k] by simp
  qed
  then show "loaded s data i (mem t) f" by (simp add: loaded_def p)
qed

lemma elf_segment_spec:
  assumes ok: "paging_ok s pt" and free: "4 \<le> free_frames s" and elf: "elf_ok s data n"
    and fr: "\<forall>x\<in>foot (vtr s) data n. foreign s pt x" and l: "loadable s data i"
  defines "t \<equiv> elf_segment pt data (ph_base s data) i s"
  obtains f where "paging_ok t pt" "keeps s pt t" "free_frames s \<le> free_frames t + 4"
    and "\<And>v. translate (mem t) pt v =
      (if vidx v = vidx (ph_vaddr s (ph_base s data) i) then Some (f OR 3) else translate (mem s) pt v)"
    and "f = of_nat (4096 * frame_of f)" "frame_of f < 4294967296" "loaded s data i (mem t) f"
    and "\<And>x. frame_of x = frame_of f \<Longrightarrow> foreign t pt x" "\<And>x. frame_of x = frame_of f \<Longrightarrow> \<not> foreign s pt x"
proof -
  let ?p = "ph_base s data"
  obtain f s1 where c: "pmalloc 1 s = (f, s1)" by fastforce
  define s2 where "s2 = map_block pt (ph_vaddr s ?p i) f 3 s1"
  note P = segment_page [OF ok free c s2_def]
  have "keeps s pt s1" using alloc_frame(2) [OF ok c] free by simp
  note same = keeps_file(1) [OF this fr] keeps_file(1) [OF P(2) fr]
  have "\<forall>x. frame_of x = frame_of f \<longrightarrow> mem s2 x = 0" "\<forall>x\<in>foot (vtr s) data n. frame_of x \<noteq> frame_of f"
    using fr P(8,10) by blast+
  note S = segment_filled [OF elf l refl P(1,4,5,6) this(1) same(2) this(2)]
  note t = elf_segment_eq [OF elf l c s2_def refl same S(3), folded t_def]
  note S = S [folded t]
  have wr: "foreign s2 pt x" if "mem t x \<noteq> mem s2 x" for x using S(2) [of x] P(9) [of x] that by blast
  note w = foreign_write [OF P(1) same_but_mem_io [OF S(1)] wr]
  show thesis
  proof (rule that [of f])
    show "paging_ok t pt" "f = of_nat (4096 * frame_of f)" "frame_of f < 4294967296" "loaded s data i (mem t) f"
      using w(1) P(4,6) S(4) by simp_all
    have "mem t x = mem s x \<and> foreign t pt x" if x: "foreign s pt x" for x
      using P(10) [of x] S(2) [of x] keepsD(1,2) [OF P(2) x] w(3) x by auto
    then show "keeps s pt t"
      using same_but_io_trans [OF keepsD(3) [OF P(2)] same_but_mem_io [OF S(1)]] by (simp add: keeps_def)
    show "free_frames s \<le> free_frames t + 4" using P(3) w(4) by simp
    show "translate (mem t) pt v = (if vidx v = vidx (ph_vaddr s ?p i) then Some (f OR 3) else translate (mem s) pt v)" for v
      using P(7) w(2) by simp
    show "foreign t pt x" "\<not> foreign s pt x" if "frame_of x = frame_of f" for x
      using P(9,10) [OF that] w(3) by simp_all
  qed
qed

section \<open>All segments\<close>

lemma elf_segment_skip: "\<not> loadable s data i \<Longrightarrow> i < ph_num s data \<Longrightarrow> elf_segment pt data (ph_base s data) i s = s"
  by (auto simp: elf_segment_def loadable_def)

lemma loadable_same:
  assumes "elf_ok s data n" "file_same s data n t"
  shows "loadable t data j = loadable s data j" "loadable s data j \<Longrightarrow> loaded t data j m f = loaded s data j m f"
    "elf_ok t data n"
proof -
  note H = file_same_header [OF assms] and S = file_same_segment [OF assms]
  show ld: "loadable t data j = loadable s data j" for j
    using S(1,5) by (auto simp: loadable_def H)
  show "loaded t data j m f = loaded s data j m f" if l: "loadable s data j"
  proof -
    have j: "j < ph_num s data" using l by (simp add: loadable_def)
    define z where "z = unat (ph_filesz s (ph_base s data) j)"
    define off where "off = ph_offset s (ph_base s data) j"
    have "unat off + z \<le> n" using assms(1) l unfolding elf_ok_def z_def off_def by blast
    then have "load8 t (data + of_nat (unat off + k)) = load8 s (data + of_nat (unat off + k))" if "k < z" for k
      by (intro load_cong(4) [OF assms(2)]) (use that in simp)
    then have "load8 t (data + off + of_nat k) = load8 s (data + off + of_nat k)" if "k < z" for k
      using that by (simp add: add.assoc)
    then show ?thesis
      by (auto simp: loaded_def H S [OF j] z_def off_def)
  qed
  have "load64 t (data + 32) = load64 s (data + 32)"
    using H(1) by (simp add: ph_base_def)
  then show "elf_ok t data n"
    using assms(1) ld S unfolding elf_ok_def H by (auto simp: loadable_def)
qed

text \<open>
  Segment \<open>j\<close> is in place in the frame \<open>f\<close>: under the table \<open>pt\<close> its page is mapped to \<open>f\<close>, writable
  but not for user mode, and \<open>f\<close> holds its bytes.
\<close>

definition placed :: "'a machine_scheme \<Rightarrow> u64 \<Rightarrow> nat \<Rightarrow> memory \<Rightarrow> u64 \<Rightarrow> u64 \<Rightarrow> bool" where
  "placed s data j m pt f \<longleftrightarrow> translate m pt (ph_vaddr s (ph_base s data) j) = Some (f OR 3) \<and>
     f = of_nat (4096 * frame_of f) \<and> frame_of f < 4294967296 \<and> loaded s data j m f"

text \<open>The page of segment \<open>j\<close> is not that of a later one.\<close>

definition last_in_page :: "'a machine_scheme \<Rightarrow> u64 \<Rightarrow> nat \<Rightarrow> bool" where
  "last_in_page s data j \<longleftrightarrow> (\<forall>l>j. loadable s data l \<longrightarrow>
     vidx (ph_vaddr s (ph_base s data) l) \<noteq> vidx (ph_vaddr s (ph_base s data) j))"

text \<open>The frame \<open>f\<close> was the pool's: nothing foreign lay in it.\<close>

definition own :: "'a pmm_scheme \<Rightarrow> u64 \<Rightarrow> u64 \<Rightarrow> bool" where
  "own s pt f \<longleftrightarrow> (\<forall>x. foreign s pt x \<longrightarrow> frame_of x \<noteq> frame_of f)"

text \<open>
  What the turns from \<open>i\<close> on make of \<open>s\<close>: only the pages of their segments change, and each segment whose
  page no later one takes is in place, in a frame of its own.
\<close>

definition segments_done :: "'a pmm_scheme \<Rightarrow> u64 \<Rightarrow> nat \<Rightarrow> u64 \<Rightarrow> 'a pmm_scheme \<Rightarrow> bool" where
  "segments_done s data i pt u \<longleftrightarrow> paging_ok u pt \<and> keeps s pt u \<and>
    (\<forall>v. (\<forall>j\<ge>i. loadable s data j \<longrightarrow> vidx v \<noteq> vidx (ph_vaddr s (ph_base s data) j)) \<longrightarrow>
       translate (mem u) pt v = translate (mem s) pt v) \<and>
    (\<forall>j\<ge>i. loadable s data j \<longrightarrow> last_in_page s data j \<longrightarrow>
       (\<exists>f. placed s data j (mem u) pt f \<and> own s pt f))"

lemma segments_doneD:
  assumes "segments_done s data i pt u"
  shows "paging_ok u pt" "keeps s pt u"
    and "\<forall>j\<ge>i. loadable s data j \<longrightarrow> vidx v \<noteq> vidx (ph_vaddr s (ph_base s data) j) \<Longrightarrow>
      translate (mem u) pt v = translate (mem s) pt v"
    and "i \<le> j \<Longrightarrow> loadable s data j \<Longrightarrow> last_in_page s data j \<Longrightarrow> \<exists>f. placed s data j (mem u) pt f \<and> own s pt f"
  using assms by (auto simp: segments_done_def)

text \<open>The notions above depend on the file only.\<close>

lemma file_same_placed:
  assumes "elf_ok s data n" "file_same s data n t"
  shows "last_in_page t data j = last_in_page s data j" "loadable s data j \<Longrightarrow> placed t data j m pt f = placed s data j m pt f"
    "loadable s data j \<Longrightarrow> ph_vaddr t (ph_base t data) j = ph_vaddr s (ph_base s data) j"
    "j < ph_num s data \<Longrightarrow> ph_vaddr t (ph_base s data) j = ph_vaddr s (ph_base s data) j"
proof -
  note H = file_same_header [OF assms] and L = loadable_same [OF assms] and S = file_same_segment(3) [OF assms]
  show va: "ph_vaddr t (ph_base t data) j = ph_vaddr s (ph_base s data) j" if "loadable s data j" for j
    using S that by (simp add: loadable_def H)
  show "j < ph_num s data \<Longrightarrow> ph_vaddr t (ph_base s data) j = ph_vaddr s (ph_base s data) j" by (rule S)
  show "placed t data j m pt f = placed s data j m pt f" if "loadable s data j"
    using va [OF that] L(2) [OF that] by (simp add: placed_def)
  show "last_in_page t data j = last_in_page s data j"
  proof (cases "j < ph_num s data")
    case True
    then show ?thesis using S [OF True] va by (auto simp: last_in_page_def L(1) H)
  next
    case False
    then have "\<not> loadable s data l" if "j < l" for l using that by (simp add: loadable_def)
    then show ?thesis by (simp add: last_in_page_def L(1))
  qed
qed

lemma segments_done_skip:
  "\<not> loadable s data i \<Longrightarrow> segments_done s data (Suc i) pt u \<Longrightarrow> segments_done s data i pt u"
proof -
  assume n: "\<not> loadable s data i" and U: "segments_done s data (Suc i) pt u"
  have later: "Suc i \<le> j" if "i \<le> j" "loadable s data j" for j
    using n that by (cases "j = i") auto
  show ?thesis
    using segments_doneD [OF U] later by (auto simp: segments_done_def)
qed

lemma segments_done_step:
  assumes elf: "elf_ok s data n" and fr: "\<forall>x\<in>foot (vtr s) data n. foreign s pt x" and l: "loadable s data i"
    and k: "keeps s pt t" and U: "segments_done t data (Suc i) pt u"
    and tr: "\<forall>v. translate (mem t) pt v =
      (if vidx v = vidx (ph_vaddr s (ph_base s data) i) then Some (f OR 3) else translate (mem s) pt v)"
    and f: "f = of_nat (4096 * frame_of f)" "frame_of f < 4294967296" "loaded s data i (mem t) f"
    and own: "\<forall>x. frame_of x = frame_of f \<longrightarrow> foreign t pt x \<and> \<not> foreign s pt x"
  shows "segments_done s data i pt u"
proof -
  note same = keeps_file(1) [OF k fr]
  note F = file_same_placed [OF elf same] and L = loadable_same [OF elf same] and D = segments_doneD [OF U]
  have orig: "own s pt g" if "own t pt g" for g
    using that keepsD(2) [OF k] by (auto simp: own_def)
  have later: "\<exists>f. placed s data j (mem u) pt f \<and> own s pt f"
    if "Suc i \<le> j" "loadable s data j" "last_in_page s data j" for j
    using D(4) [of j] that F L orig by auto
  have "placed s data i (mem u) pt f \<and> own s pt f" if "last_in_page s data i"
  proof -
    have "translate (mem u) pt (ph_vaddr s (ph_base s data) i) = translate (mem t) pt (ph_vaddr s (ph_base s data) i)"
      by (rule D(3)) (use that F(3) L(1) in \<open>auto simp: last_in_page_def Suc_le_eq dest: not_sym\<close>)
    moreover have "mem u (f + of_nat k) = mem t (f + of_nat k)" if "k < 4096" for k
      using keepsD(1) [OF D(2)] own frame_at [OF f(1,2) that] by blast
    ultimately show ?thesis using f own tr by (auto simp: placed_def loaded_def own_def)
  qed
  then have here: "\<exists>f. placed s data j (mem u) pt f \<and> own s pt f"
    if "i \<le> j" "loadable s data j" "last_in_page s data j" for j
    using that later [of j] by (cases "j = i") auto
  have "translate (mem u) pt v = translate (mem s) pt v"
    if "\<forall>j\<ge>i. loadable s data j \<longrightarrow> vidx v \<noteq> vidx (ph_vaddr s (ph_base s data) j)" for v
    using D(3) [of v] tr l that F(3) L(1) by auto
  then show ?thesis using D(1) keeps_trans [OF k D(2)] here by (simp add: segments_done_def)
qed

lemma elf_segments_spec:
  assumes "paging_ok s pt" "elf_ok s data n" "\<forall>x\<in>foot (vtr s) data n. foreign s pt x"
    and "i \<le> ph_num s data" "4 * (ph_num s data - i) \<le> free_frames s"
  shows "segments_done s data i pt (elf_segments pt data (ph_base s data) i s)"
  using assms
proof (induction "ph_num s data - i" arbitrary: s i)
  case 0
  then have "i = ph_num s data" by simp
  then have "elf_segments pt data (ph_base s data) i s = s"
    by (subst elf_segments.simps) (simp add: ph_num_def)
  then show ?case using 0 by (auto simp: loadable_def segments_done_def)
next
  case (Suc k)
  let ?p = "ph_base s data"
  have i: "i < ph_num s data" using Suc.hyps(2) by simp
  define t where "t = elf_segment pt data ?p i s"
  have u: "elf_segments pt data ?p i s = elf_segments pt data ?p (Suc i) t"
    using i by (simp add: elf_segments.simps [of pt data _ i s] ph_num_def t_def)
  show ?case
  proof (cases "loadable s data i")
    case False
    then have "t = s" unfolding t_def using i by (rule elf_segment_skip)
    have "k = ph_num s data - Suc i" "Suc i \<le> ph_num s data" "4 * (ph_num s data - Suc i) \<le> free_frames s"
      using Suc.hyps(2) Suc.prems(5) i by auto
    from Suc.hyps(1) [OF this(1) Suc.prems(1-3) this(2,3)] show ?thesis
      unfolding u \<open>t = s\<close> by (rule segments_done_skip [OF False])
  next
    case True
    have "4 \<le> free_frames s" using Suc.prems(5) i by simp
    from elf_segment_spec [OF Suc.prems(1) this Suc.prems(2,3) True, folded t_def] obtain f
      where T: "paging_ok t pt" "keeps s pt t" "free_frames s \<le> free_frames t + 4"
        and tr: "\<forall>v. translate (mem t) pt v =
          (if vidx v = vidx (ph_vaddr s ?p i) then Some (f OR 3) else translate (mem s) pt v)"
        and f: "f = of_nat (4096 * frame_of f)" "frame_of f < 4294967296" "loaded s data i (mem t) f"
        and own: "\<forall>x. frame_of x = frame_of f \<longrightarrow> foreign t pt x \<and> \<not> foreign s pt x"
      by metis
    note K = keeps_file [OF T(2) Suc.prems(3)]
    note H = file_same_header [OF Suc.prems(2) K(1)] and L = loadable_same [OF Suc.prems(2) K(1)]
    have "segments_done t data (Suc i) pt (elf_segments pt data ?p (Suc i) t)"
      using Suc.hyps(1) [of t "Suc i"] Suc.hyps(2) Suc.prems(5) T(1,3) L(3) K(2) i by (simp add: H)
    then show ?thesis
      unfolding u by (rule segments_done_step [OF Suc.prems(2,3) True T(2) _ tr f own])
  qed
qed

section \<open>The bytes a process finds at its addresses\<close>

definition page_of :: "u64 \<Rightarrow> u64" where
  "page_of v = v AND NOT 0xFFF"

text \<open>What the processor reads at \<open>v\<close> under the table \<open>pt\<close>.\<close>

definition virt_byte :: "memory \<Rightarrow> u64 \<Rightarrow> u64 \<Rightarrow> u8 option" where
  "virt_byte m pt v = map_option (\<lambda>e. m ((e AND 0x000FFFFFFFFFF000) + (v AND 0xFFF))) (translate m pt v)"

text \<open>Byte \<open>k\<close> of segment \<open>j\<close>: of the file, then zero.\<close>

definition segment_byte :: "'a machine_scheme \<Rightarrow> u64 \<Rightarrow> nat \<Rightarrow> nat \<Rightarrow> u8" where
  "segment_byte s data j k =
     (if k < unat (ph_filesz s (ph_base s data) j) then load8 s (data + ph_offset s (ph_base s data) j + of_nat k) else 0)"

lemma page_masks: "(0xFFF :: u64) = mask 12"
  by (simp add: mask_eq_exp_minus_1)

lemma drop_page_of: "drop_bit 12 (page_of v) = drop_bit 12 v"
  unfolding page_of_def page_masks by (rule bit_word_eqI) (auto simp: bit_drop_bit_eq bit_and_iff bit_not_iff bit_mask_iff dest: bit_imp_le_length)

lemma same_page:
  assumes "page_of w = page_of v"
  shows "vidx w = vidx v"
proof -
  have d: "drop_bit 12 w = drop_bit 12 v" using drop_page_of [of v] drop_page_of [of w] assms by simp
  have "getidx w l = getidx v l" for l
    using arg_cong [OF d, of "drop_bit ((l - 1) * 9)"] by (simp add: getidx_def drop_bit_drop_bit add.commute)
  then show ?thesis by (simp add: vidx_def)
qed

lemma page_offset: "unat (v AND 0xFFF) = unat v mod 4096" for v :: u64
  unfolding page_masks take_bit_eq_mask [symmetric] unsigned_take_bit_eq by (simp add: take_bit_eq_mod)

lemma page_plus:
  assumes "page_of v = v" "k < 4096"
  shows "page_of (v + of_nat k) = v" "unat ((v + of_nat k) AND 0xFFF) = k"
proof -
  have "v AND 0xFFF = 0"
    by (subst assms(1) [symmetric]) (simp add: page_of_def and.assoc)
  then have v0: "unat v mod 4096 = 0" using page_offset [of v] by simp
  then have "4096 dvd unat v" by (rule mod_0_imp_dvd)
  then obtain q where "unat v = 4096 * q" by (rule dvdE)
  then have "unat v + 4096 \<le> 18446744073709551616" using unat_lt_u64 [of v] by simp
  then have u: "unat (v + of_nat k) = unat v + k"
    using assms(2) by (simp add: unat_word_ariths unat_of_nat64)
  then show "unat ((v + of_nat k) AND 0xFFF) = k"
    using v0 assms(2) by (simp add: page_offset mod_add_left_eq [symmetric, of "unat v"])
  have pb: "page_of x = push_bit 12 (drop_bit 12 x)" for x
    unfolding page_of_def page_masks
    by (rule bit_word_eqI) (auto simp: bit_drop_bit_eq bit_push_bit_iff bit_and_iff bit_not_iff bit_mask_iff)
  have "unat (drop_bit 12 (v + of_nat k)) = unat (drop_bit 12 v)"
    unfolding unat_drop_bit_eq u using v0 assms(2) by (simp add: drop_bit_eq_div div_add1_eq)
  then have "drop_bit 12 (v + of_nat k) = drop_bit 12 v" by (simp only: word_unat_eq_iff)
  then show "page_of (v + of_nat k) = v" using assms(1) by (simp add: pb)
qed

lemma frame_field:
  assumes "f = of_nat (4096 * n)" "n < 4294967296"
  shows "(f OR 3) AND 0x000FFFFFFFFFF000 = (f :: u64)"
proof (rule bit_word_eqI)
  fix i
  have small: "bit (of_nat n :: u64) k \<Longrightarrow> k < 32" for k
  proof -
    have "take_bit 32 (of_nat n :: u64) = of_nat n"
      using assms(2) by (simp add: of_nat_take_bit [symmetric] take_bit_nat_eq_self)
    then show "bit (of_nat n :: u64) k \<Longrightarrow> k < 32" by (metis bit_take_bit_iff)
  qed
  have f: "f = push_bit 12 (of_nat n)" by (simp only: assms(1) push_bit_frame)
  have h: "(0x000FFFFFFFFFF000 :: u64) = push_bit 12 (mask 40)" "(3 :: u64) = mask 2"
    by (simp_all add: mask_eq_exp_minus_1 push_bit_eq_mult)
  show "bit ((f OR 3) AND 0x000FFFFFFFFFF000) i = bit f i"
    unfolding h f using small [of "i - 12"] by (auto simp: bit_and_iff bit_or_iff bit_push_bit_iff bit_mask_iff)
qed

lemma placed_byte:
  assumes "placed s data j m pt f" "page_of w = page_of (ph_vaddr s (ph_base s data) j)"
  shows "virt_byte m pt w = Some (segment_byte s data j (unat (w AND 0xFFF)))"
proof -
  have p: "translate m pt (ph_vaddr s (ph_base s data) j) = Some (f OR 3)" "f = of_nat (4096 * frame_of f)"
    "frame_of f < 4294967296" "loaded s data j m f"
    using assms(1) by (simp_all add: placed_def)
  have "translate m pt w = Some (f OR 3)"
    using p(1) same_page [OF assms(2)] by (simp add: translate_def)
  then have "virt_byte m pt w = Some (m (f + of_nat (unat (w AND 0xFFF))))"
    using frame_field [OF p(2,3)] by (simp add: virt_byte_def)
  moreover have "unat (w AND 0xFFF) < 4096" by (simp add: page_offset)
  ultimately show ?thesis
    using p(4) unfolding loaded_def segment_byte_def by (simp only:)
qed

text \<open>
  Segment \<open>j\<close> under the table \<open>pt\<close>: the page of its address holds its bytes from the start of the page on,
  whatever the offset of the address in the page. So an aligned segment is at its address, and any
  other is too low by that offset.
\<close>

definition at_page_start :: "'a machine_scheme \<Rightarrow> u64 \<Rightarrow> nat \<Rightarrow> memory \<Rightarrow> u64 \<Rightarrow> bool" where
  "at_page_start s data j m pt \<longleftrightarrow> (\<forall>w. page_of w = page_of (ph_vaddr s (ph_base s data) j) \<longrightarrow>
     virt_byte m pt w = Some (segment_byte s data j (unat (w AND 0xFFF))))"

lemma placed_page: "placed s data j m pt f \<Longrightarrow> at_page_start s data j m pt"
  by (simp add: at_page_start_def placed_byte)

lemma aligned_segment:
  assumes "at_page_start s data j m pt" "page_of (ph_vaddr s (ph_base s data) j) = ph_vaddr s (ph_base s data) j" "k < 4096"
  shows "virt_byte m pt (ph_vaddr s (ph_base s data) j + of_nat k) = Some (segment_byte s data j k)"
  using assms page_plus [OF assms(2,3)] by (simp add: at_page_start_def)

text \<open>The last segment in the page of an address.\<close>

lemma last_segment:
  assumes "loadable s data i" "vidx v = vidx (ph_vaddr s (ph_base s data) i)"
  obtains j where "loadable s data j" "last_in_page s data j" "vidx v = vidx (ph_vaddr s (ph_base s data) j)"
proof -
  let ?P = "\<lambda>j. loadable s data j \<and> vidx v = vidx (ph_vaddr s (ph_base s data) j)"
  define j where "j = (GREATEST j. ?P j)"
  have b: "\<forall>j. ?P j \<longrightarrow> j \<le> ph_num s data" by (simp add: loadable_def)
  have "?P j" unfolding j_def by (rule GreatestI_nat [where k = i and b = "ph_num s data"]) (use assms b in auto)
  moreover have "\<not> ?P l" if "j < l" for l
    using Greatest_le_nat [of ?P l "ph_num s data"] b that unfolding j_def by auto
  ultimately have "last_in_page s data j" unfolding last_in_page_def by metis
  then show thesis using that \<open>?P j\<close> by blast
qed

end
