(* ===== verification/Loader.thy ===== *)
theory Loader
  imports Segments
begin

section \<open>The loader's own memory\<close>

text \<open>What the prints of \<open>run_elf\<close> write, and its local \<open>state\<close>.\<close>

definition elf_prints :: "'a vga_scheme \<Rightarrow> u64 set" where
  "elf_prints s = fb_region s \<union> foot (vtr s) (locals s ''run_elf.buf'') 17 \<union> foot (vtr s) (locals s ''run_elf.buf2'') 17"

definition elf_state :: "'a machine_scheme \<Rightarrow> u64" where
  "elf_state s = locals s ''run_elf.state''"

definition loader_ok :: "u64 \<Rightarrow> u64 \<Rightarrow> nat \<Rightarrow> 'a vmm_scheme \<Rightarrow> bool" where
  "loader_ok b data n s \<longleftrightarrow> paging_ok s b \<and> start_pml4 s = b + 2048 \<and> fb_ok s \<and> elf_ok s data n \<and>
     5 + 4 * ph_num s data \<le> free_frames s \<and> inj_at (vtr s) (elf_state s) 176 \<and>
     foot (vtr s) (elf_state s) 176 \<inter> elf_prints s = {} \<and>
     foot (vtr s) data n \<inter> (elf_prints s \<union> foot (vtr s) (elf_state s) 176) = {} \<and>
     (\<forall>x\<in>elf_prints s \<union> foot (vtr s) (elf_state s) 176 \<union> foot (vtr s) data n. foreign s b x)"

lemma print_hex_other:
  assumes "fb_ok s" "y < 100" "x \<notin> fb_region s" "x \<notin> foot (vtr s) buf 17"
  shows "mem (print_hex buf (of_nat y) v att s) x = mem s x"
proof -
  let ?s = "uitoa_st v buf 16 s"
  have io: "same_but_io s ?s" by (simp add: same_but_mem_io)
  have "length (c_text ?s buf 32) \<le> 32"
    unfolding c_text_def by (rule order_trans [OF length_takeWhile_le]) simp
  then have "mem (prints (of_nat 0) (of_nat y) (c_text ?s buf 32) att 0 ?s) x = mem ?s x"
    using assms same_but_io_fb [OF io] by (intro prints_other) auto
  also have "mem ?s x = mem s x"
    using assms(4) by (simp add: uitoa_st_def uitoa_hex_other)
  finally show ?thesis by (simp add: print_hex_def Let_def)
qed

text \<open>A step that writes only in \<open>X\<close>, where nothing of the tables or the pool is.\<close>

definition writes :: "u64 set \<Rightarrow> 'a pmm_scheme \<Rightarrow> u64 \<Rightarrow> 'a pmm_scheme \<Rightarrow> bool" where
  "writes X s pt t \<longleftrightarrow> paging_ok t pt \<and> same_but_io s t \<and> foreign t pt = foreign s pt \<and> free_frames t = free_frames s \<and>
     (\<forall>v. translate (mem t) pt v = translate (mem s) pt v) \<and> (\<forall>x. x \<notin> X \<longrightarrow> mem t x = mem s x)"

lemma writesI:
  assumes "paging_ok s pt" "\<forall>x\<in>X. foreign s pt x" "same_but_io s t" "\<And>x. x \<notin> X \<Longrightarrow> mem t x = mem s x"
  shows "writes X s pt t"
proof -
  have w: "foreign s pt x" if "mem t x \<noteq> mem s x" for x
    using assms(2,4) that by blast
  show ?thesis
    using foreign_write [OF assms(1,3) w] assms(3,4) by (simp add: writes_def)
qed

lemma writes_trans: "writes X s pt t \<Longrightarrow> writes X t pt u \<Longrightarrow> writes X s pt u"
  using same_but_io_trans by (auto simp: writes_def)

lemma elf_prints_same: "same_but_io s t \<Longrightarrow> elf_prints t = elf_prints s \<and> elf_state t = elf_state s"
  using same_but_io_fb [of s t] same_but_io_machine [of s t] by (simp add: elf_prints_def elf_state_def)

lemma writes_print:
  assumes "paging_ok s pt" "\<forall>x\<in>elf_prints s. foreign s pt x" "fb_ok s" "y < 100"
    and "buf = locals s ''run_elf.buf'' \<or> buf = locals s ''run_elf.buf2''"
  shows "writes (elf_prints s) s pt (print_hex buf (of_nat y) v att s)"
proof (rule writesI [OF assms(1,2) print_hex_io])
  fix x
  assume "x \<notin> elf_prints s"
  then show "mem (print_hex buf (of_nat y) v att s) x = mem s x"
    using assms(3-5) by (intro print_hex_other) (auto simp: elf_prints_def)
qed

lemma writes_state:
  assumes "paging_ok s pt" "\<forall>x\<in>foot (vtr s) a 176. foreign s pt x" "i + 8 \<le> 176"
  shows "writes (foot (vtr s) a 176) s pt (store64 (a + of_nat i) v s)"
proof (rule writesI [OF assms(1,2) same_but_mem_io])
  show "mem (store64 (a + of_nat i) v s) x = mem s x" if "x \<notin> foot (vtr s) a 176" for x
    using that foot_shift [OF assms(3), of "vtr s" a] by (auto simp: store64_def intro: st64_other)
qed simp

section \<open>What is built\<close>

lemma writesD:
  assumes "writes X s pt t"
  shows "paging_ok t pt" "same_but_io s t" "foreign t pt = foreign s pt" "free_frames t = free_frames s"
    "translate (mem t) pt v = translate (mem s) pt v" "x \<notin> X \<Longrightarrow> mem t x = mem s x"
  using assms by (simp_all add: writes_def)

text \<open>
  The first half of \<open>elf_build\<close>, up to the state before the segments, for a stack of one frame: the
  table \<open>c\<close> has the stack page and the kernel half, \<open>r\<close> is the stack's frame, and the saved context
  lies in the local \<open>state\<close>.
\<close>

lemma stage_table:
  assumes ok: "loader_ok b data n s" and c: "newpml4 s = (c, s1)"
    and s3: "s3 = store64 (elf_state s + 136) (load64 s2 (data + 24)) s2" and s2: "s2 = print_hex (locals s ''run_elf.buf2'') 15 c 0xff00ff s1"
  shows "paging_ok s3 c" "same_but_io s s3" "free_frames s = Suc (free_frames s3)"
    "translate (mem s3) c v = (if unat (getidx v 4) < 256 then None else translate (mem s) b v)"
    "foreign s b x \<Longrightarrow> foreign s3 c x"
    "x \<in> foot (vtr s) data n \<Longrightarrow> mem s3 x = mem s x"
    "load64 s3 (elf_state s + 136) = load64 s (data + 24)"
proof -
  have S: "paging_ok s b" "start_pml4 s = b + 2048" "fb_ok s" "elf_ok s data n" "inj_at (vtr s) (elf_state s) 176"
    "foot (vtr s) data n \<inter> (elf_prints s \<union> foot (vtr s) (elf_state s) 176) = {}" "0 < free_frames s"
    and F: "\<And>x. x \<in> elf_prints s \<union> foot (vtr s) (elf_state s) 176 \<union> foot (vtr s) data n \<Longrightarrow> foreign s b x"
    using ok by (auto simp: loader_ok_def)
  note N = newpml4_spec [OF S(1,2) c S(7)]
  have io1: "same_but_io s s1" using newpml4_io [of s] c by simp
  note e1 = same_but_io_machine [OF io1] elf_prints_same [OF io1] same_but_io_fb [OF io1]
  have w2: "writes (elf_prints s) s1 c s2"
    unfolding s2 using writes_print [OF N(1), of 15 "locals s ''run_elf.buf2''"] F N(3) S(3) e1 by auto
  note W2 = writesD [OF w2]
  have io2: "same_but_io s s2" using same_but_io_trans [OF io1 W2(2)] .
  have vt: "vtr s2 = vtr s" using same_but_io_machine [OF io2] by simp
  have w3: "writes (foot (vtr s) (elf_state s) 176) s2 c s3"
    unfolding s3 using writes_state [OF W2(1), of "elf_state s" 136] F N(3) W2(3) by (simp add: vt)
  note W3 = writesD [OF w3]
  show "paging_ok s3 c" "same_but_io s s3"
    using W3(1) same_but_io_trans [OF io2 W3(2)] .
  show "free_frames s = Suc (free_frames s3)" using N(4) W2(4) W3(4) by simp
  show "translate (mem s3) c v = (if unat (getidx v 4) < 256 then None else translate (mem s) b v)"
    using N(2) W2(5) W3(5) by simp
  show "foreign s3 c x" if "foreign s b x" using N(3) [OF that] W2(3) W3(3) by simp
  have m2: "mem s2 x = mem s x" if "x \<in> foot (vtr s) data n" for x
    using that S(6) W2(6) [of x] N(3) [OF F, of x] by auto
  show "mem s3 x = mem s x" if "x \<in> foot (vtr s) data n"
    using m2 [OF that] that S(6) W3(6) [of x] by auto
  have "load64 s2 (data + 24) = load64 s (data + 24)"
    using file_same_header(3) [OF S(4), of s2] m2 vt by (simp add: file_same_def)
  moreover have "inj_at (vtr s2) (elf_state s + of_nat 136) 8"
    unfolding vt by (rule inj_at_shift [OF S(5)]) simp
  ultimately show "load64 s3 (elf_state s + 136) = load64 s (data + 24)"
    by (simp add: s3 store64_def ld64_st64)
qed

text \<open>What every later stage keeps: the tables, what is foreign to them, and the file.\<close>

definition stage :: "u64 \<Rightarrow> nat \<Rightarrow> 'a vmm_scheme \<Rightarrow> u64 \<Rightarrow> 'a vmm_scheme \<Rightarrow> bool" where
  "stage data n s c t \<longleftrightarrow> paging_ok t c \<and> same_but_io s t \<and> file_same s data n t \<and>
     (\<forall>x\<in>elf_prints s \<union> foot (vtr s) (elf_state s) 176 \<union> foot (vtr s) data n. foreign t c x)"

lemma stage_writes:
  assumes st: "stage data n s c t" and w: "writes X t c u"
    and X: "X \<subseteq> elf_prints s \<union> foot (vtr s) (elf_state s) 176"
    and apart: "foot (vtr s) data n \<inter> (elf_prints s \<union> foot (vtr s) (elf_state s) 176) = {}"
  shows "stage data n s c u"
proof -
  note W = writesD [OF w]
  have "mem u x = mem s x" if "x \<in> foot (vtr s) data n" for x
    using that X apart W(6) [of x] st by (auto simp: stage_def file_same_def)
  then show ?thesis
    using st W(1,3) same_but_io_trans [OF _ W(2), of s] same_but_io_machine [OF W(2)]
    by (simp add: stage_def file_same_def)
qed

lemma stage_keeps:
  assumes st: "stage data n s c t" and k: "keeps t c u" and ok: "paging_ok u c"
  shows "stage data n s c u"
  using st ok k same_but_io_trans [of s t u] same_but_io_machine [of t u]
  by (auto simp: stage_def file_same_def keeps_def)

lemma stage_print:
  assumes st: "stage data n s c t" and L: "loader_ok b data n s" and y: "y < 100"
  shows "writes (elf_prints s) t c (print_hex (locals s ''run_elf.buf'') (of_nat y) v att t)"
    and "stage data n s c (print_hex (locals s ''run_elf.buf'') (of_nat y) v att t)"
proof -
  have io: "same_but_io s t" using st by (simp add: stage_def)
  note e = same_but_io_machine [OF io] elf_prints_same [OF io] same_but_io_fb [OF io]
  show w: "writes (elf_prints s) t c (print_hex (locals s ''run_elf.buf'') (of_nat y) v att t)"
    using writes_print [of t c y "locals s ''run_elf.buf''" v att] st L y e
    by (simp add: stage_def loader_ok_def)
  show "stage data n s c (print_hex (locals s ''run_elf.buf'') (of_nat y) v att t)"
    by (rule stage_writes [OF st w]) (use L in \<open>auto simp: loader_ok_def\<close>)
qed

lemma stage_store:
  assumes st: "stage data n s c t" and L: "loader_ok b data n s" and i: "i + 8 \<le> 176"
  shows "writes (foot (vtr s) (elf_state s) 176) t c (store64 (elf_state s + of_nat i) v t)"
    and "stage data n s c (store64 (elf_state s + of_nat i) v t)"
proof -
  have "same_but_io s t" using st by (simp add: stage_def)
  then have e: "vtr t = vtr s" using same_but_io_machine [of s t] by simp
  show w: "writes (foot (vtr s) (elf_state s) 176) t c (store64 (elf_state s + of_nat i) v t)"
    using writes_state [of t c "elf_state s" i v] st i by (simp add: stage_def e)
  show "stage data n s c (store64 (elf_state s + of_nat i) v t)"
    by (rule stage_writes [OF st w]) (use L in \<open>auto simp: loader_ok_def\<close>)
qed

text \<open>The local \<open>state\<close> after steps that write elsewhere.\<close>

lemma stage_state:
  assumes st: "stage data n s c t" and k: "i + 8 \<le> 176"
    and m: "\<And>x. x \<in> foot (vtr s) (elf_state s) 176 \<Longrightarrow> foreign t c x \<Longrightarrow> mem u x = mem t x" and v: "same_but_io t u"
  shows "load64 u (elf_state s + of_nat i) = load64 t (elf_state s + of_nat i)"
proof (rule load_cong(1) [OF _ k])
  have "vtr t = vtr s" using st same_but_io_machine [of s t] by (simp add: stage_def)
  then show "file_same t (elf_state s) 176 u"
    using m same_but_io_machine [OF v] st by (auto simp: file_same_def stage_def)
qed

text \<open>The two words of the context that depend on the stack.\<close>

lemma stack_saved:
  assumes st: "stage data n s c s4" and L: "loader_ok b data n s"
    and s6: "s6 = store64 (elf_state s + of_nat 160) w (store64 (elf_state s + of_nat 64) v s4)"
  shows "stage data n s c s6" "writes (foot (vtr s) (elf_state s) 176) s4 c s6"
    "load64 s6 (elf_state s + of_nat 160) = w" "load64 s6 (elf_state s + of_nat 64) = v"
    "load64 s6 (elf_state s + of_nat 136) = load64 s4 (elf_state s + of_nat 136)"
proof -
  let ?a = "\<lambda>i. elf_state s + of_nat i"
  define s5 where "s5 = store64 (?a 64) v s4"
  have b: "(64::nat) + 8 \<le> 176" "(160::nat) + 8 \<le> 176" "(64::nat) + 8 \<le> 160" "(136::nat) + 8 \<le> 160" by simp_all
  note S5 = stage_store [OF st L b(1), of v, folded s5_def]
  note S6 = stage_store [OF S5(2) L b(2), of w, folded s6 [folded s5_def]]
  show "stage data n s c s6" by (rule S6(2))
  show "writes (foot (vtr s) (elf_state s) 176) s4 c s6" by (rule writes_trans [OF S5(1) S6(1)])
  have vt: "vtr s5 = vtr s" "vtr s4 = vtr s" "vtr s6 = vtr s"
    using st S5(2) S6(2) same_but_io_machine [of s s5] same_but_io_machine [of s s4] same_but_io_machine [of s s6]
    by (simp_all add: stage_def)
  have inj: "inj_at (vtr s) (elf_state s) 176" using L by (simp add: loader_ok_def)
  have j: "inj_at (vtr s) (?a i) 8" if "i + 8 \<le> 176" for i by (rule inj_at_shift [OF inj that])
  have ap: "foot (vtr s) (?a i) 8 \<inter> foot (vtr s) (?a k) 8 = {}" if "i + 8 \<le> 176" "k + 8 \<le> 176" "i + 8 \<le> k \<or> k + 8 \<le> i" for i k
    by (rule foot_apart [OF inj that])
  have v6: "load64 s6 (?a i) = ld64 (vtr s) (st64 (vtr s) (mem s5) (?a 160) w) (?a i)"
    and v5: "ld64 (vtr s) (mem s5) (?a i) = ld64 (vtr s) (st64 (vtr s) (mem s4) (?a 64) v) (?a i)" for i
    by (simp_all add: s6 s5_def store64_def vt)
  have o: "load64 s6 (?a i) = ld64 (vtr s) (mem s5) (?a i)" if "i + 8 \<le> 160" for i
    unfolding v6 by (rule ld64_st64_other [OF ap]) (use that in simp_all)
  show "load64 s6 (?a 160) = w" unfolding v6 by (rule ld64_st64 [OF j]) simp
  show "load64 s6 (?a 64) = v" unfolding o [OF b(3)] v5 by (rule ld64_st64 [OF j]) simp
  show "load64 s6 (?a 136) = load64 s4 (?a 136)"
    unfolding o [OF b(4)] v5 vt(2) by (rule ld64_st64_other [OF ap]) simp_all
qed

text \<open>The stack page between the three prints.\<close>

lemma stack_mapped:
  assumes st: "stage data n s c s6" and L: "loader_ok b data n s" and free: "3 \<le> free_frames s6"
    and r: "r AND NOT PAG_4K_FLAGS = r"
    and s7: "s7 = print_hex (locals s ''run_elf.buf'') (of_nat 7) v7 0xffff s6"
    and s8: "s8 = elf_stack_page c r 0 s7"
    and s9: "s9 = print_hex (locals s ''run_elf.buf'') (of_nat 4) v9 0xff0fff s8"
  shows "stage data n s c s9" "free_frames s6 \<le> free_frames s9 + 3" "same_but_io s6 s9"
    "translate (mem s9) c v = (if vidx v = vidx 0x7FFF000 then Some (r OR 7) else translate (mem s6) c v)"
    "foreign s6 c x \<Longrightarrow> foreign s9 c x" "foreign s6 c x \<Longrightarrow> x \<notin> elf_prints s \<Longrightarrow> mem s9 x = mem s6 x"
proof -
  define s71 where "s71 = print_hex (locals s ''run_elf.buf'') (of_nat 8) 0x7FFF000 0xffff s7"
  define s72 where "s72 = print_hex (locals s ''run_elf.buf'') (of_nat 9) r 0xffff s71"
  have b: "(7::nat) < 100" "(8::nat) < 100" "(9::nat) < 100" "(4::nat) < 100" by simp_all
  note S7 = stage_print [OF st L b(1), of v7 "0xffff", folded s7]
  note S71 = stage_print [OF S7(2) L b(2), of "0x7FFF000" "0xffff", folded s71_def]
  note S72 = stage_print [OF S71(2) L b(3), of r "0xffff", folded s72_def]
  note W = writesD [OF writes_trans [OF writes_trans [OF S7(1) S71(1)] S72(1)]]
  have "locals s7 = locals s" using S7(2) same_but_io_machine [of s s7] by (simp add: stage_def)
  then have s8': "s8 = map_block c 0x7FFF000 r 7 s72"
    by (simp add: s8 elf_stack_page_def Let_def s71_def s72_def)
  have "3 \<le> free_frames s72" using free W(4) by simp
  note M = map_block_spec [OF W(1) this, of "0x7FFF000" r 7, folded s8']
  note S9 = stage_print [OF stage_keeps [OF S72(2) M(3,1)] L b(4), of v9 "0xff0fff", folded s9]
  note X = writesD [OF S9(1)]
  show "stage data n s c s9" by (rule S9(2))
  show "free_frames s6 \<le> free_frames s9 + 3" using M(4) W(4) X(4) by simp
  show "same_but_io s6 s9" using same_but_io_trans [OF W(2) same_but_io_trans [OF keepsD(3) [OF M(3)] X(2)]] .
  show "translate (mem s9) c v = (if vidx v = vidx 0x7FFF000 then Some (r OR 7) else translate (mem s6) c v)"
    using M(2) [of v] W(5) X(5) r by (simp add: PAG_PRESENT_def or.assoc)
  have f: "foreign s72 c x" if "foreign s6 c x" for x using that W(3) by simp
  show "foreign s6 c x \<Longrightarrow> foreign s9 c x" using f keepsD(2) [OF M(3)] X(3) by simp
  show "foreign s6 c x \<Longrightarrow> x \<notin> elf_prints s \<Longrightarrow> mem s9 x = mem s6 x"
    using f W(6) X(6) keepsD(1) [OF M(3)] by simp
qed

lemma stage_stack:
  assumes st: "stage data n s c s3" and L: "loader_ok b data n s" and free: "4 \<le> free_frames s3"
    and r: "pmalloc 1 s3 = (r, s4)"
    and s6: "s6 = store64 (elf_state s + of_nat 160) (0x8000000 - 176) (store64 (elf_state s + of_nat 64) 0x8000000 s4)"
    and s7: "s7 = print_hex (locals s ''run_elf.buf'') (of_nat 7) v7 0xffff s6"
    and s8: "s8 = elf_stack_page c r 0 s7"
    and s9: "s9 = print_hex (locals s ''run_elf.buf'') (of_nat 4) v9 0xff0fff s8"
  shows "stage data n s c s9" "free_frames s3 \<le> free_frames s9 + 4"
    "translate (mem s9) c v = (if vidx v = vidx 0x7FFF000 then Some (r OR 7) else translate (mem s3) c v)"
    "r = of_nat (4096 * frame_of r)" "frame_of r < nframes s3"
    "frame_of x = frame_of r \<Longrightarrow> foreign s9 c x" "frame_of x = frame_of r \<Longrightarrow> \<not> foreign s3 c x"
    "foreign s3 c x \<Longrightarrow> foreign s9 c x"
    "load64 s9 (elf_state s + of_nat 136) = load64 s3 (elf_state s + of_nat 136)"
    "load64 s9 (elf_state s + of_nat 64) = 0x8000000" "load64 s9 (elf_state s + of_nat 160) = 0x8000000 - 176"
proof -
  have "paging_ok s3 c" "0 < free_frames s3" using st free by (simp_all add: stage_def)
  note A = alloc_frame [OF this(1) r this(2)]
  note st4 = stage_keeps [OF st A(2,1)]
  note S = stack_saved [OF st4 L s6]
  note W = writesD [OF S(2)]
  have "3 \<le> free_frames s6" using A(6) free W(4) by simp
  note M = stack_mapped [OF S(1) L this frame_no_flags [OF A(4)] s7 s8 s9]
  show "stage data n s c s9" "r = of_nat (4096 * frame_of r)" "frame_of r < nframes s3" using M(1) A(4,5) .
  show "free_frames s3 \<le> free_frames s9 + 4" using A(6) W(4) M(2) by simp
  show "translate (mem s9) c v = (if vidx v = vidx 0x7FFF000 then Some (r OR 7) else translate (mem s3) c v)"
    using M(4) [of v] W(5) [of v] A(3) [of v] by simp
  show "frame_of x = frame_of r \<Longrightarrow> foreign s9 c x" "frame_of x = frame_of r \<Longrightarrow> \<not> foreign s3 c x"
    using A(7,9) M(5) W(3) by simp_all
  show "foreign s3 c x \<Longrightarrow> foreign s9 c x" using keepsD(2) [OF A(2)] M(5) W(3) by simp
  have "foot (vtr s) (elf_state s) 176 \<inter> elf_prints s = {}" using L by (simp add: loader_ok_def)
  then have ld: "load64 s9 (elf_state s + of_nat i) = load64 s6 (elf_state s + of_nat i)" if "i + 8 \<le> 176" for i
    by (intro stage_state [OF S(1) that M(6) M(3)]) auto
  show "load64 s9 (elf_state s + of_nat 64) = 0x8000000" "load64 s9 (elf_state s + of_nat 160) = 0x8000000 - 176"
    using ld [of 64] ld [of 160] S(3,4) by simp_all
  have "load64 s4 (elf_state s + of_nat 136) = load64 s3 (elf_state s + of_nat 136)"
    by (rule stage_state [OF st _ keepsD(1) [OF A(2)] keepsD(3) [OF A(2)]]) simp_all
  then show "load64 s9 (elf_state s + of_nat 136) = load64 s3 (elf_state s + of_nat 136)"
    using ld [of 136] S(5) by simp
qed

lemma elf_build_stages:
  assumes "elf_build data 4096 s = (c, r, t)"
  obtains s1 s2 s3 s4 s6 s7 s8 s9 v7 v9 where "newpml4 s = (c, s1)"
    and "s2 = print_hex (locals s ''run_elf.buf2'') 15 c 0xff00ff s1"
    and "s3 = store64 (elf_state s + 136) (load64 s2 (data + 24)) s2" and "pmalloc 1 s3 = (r, s4)"
    and "s6 = store64 (elf_state s + of_nat 160) (0x8000000 - 176) (store64 (elf_state s + of_nat 64) 0x8000000 s4)"
    and "s7 = print_hex (locals s ''run_elf.buf'') (of_nat 7) v7 0xffff s6"
    and "s8 = elf_stack_page c r 0 s7"
    and "s9 = print_hex (locals s ''run_elf.buf'') (of_nat 4) v9 0xff0fff s8"
    and "t = memcpy_st (r + of_nat 3920 + hhdm (elf_segments c data (ph_base s data) 0 s9)) (elf_state s) 176
           (elf_segments c data (ph_base s data) 0 s9)"
proof -
  obtain d s1 where c: "newpml4 s = (d, s1)" by fastforce
  define s2 where "s2 = print_hex (locals s ''run_elf.buf2'') 15 d 0xff00ff s1"
  define s3 where "s3 = store64 (elf_state s + 136) (load64 s2 (data + 24)) s2"
  obtain q s4 where q: "pmalloc 1 s3 = (q, s4)" by fastforce
  define s6 where "s6 = store64 (elf_state s + of_nat 160) (0x8000000 - 176) (store64 (elf_state s + of_nat 64) 0x8000000 s4)"
  define s7 where "s7 = print_hex (locals s ''run_elf.buf'') (of_nat 7) (load64 s6 (elf_state s + 160)) 0xffff s6"
  define s8 where "s8 = elf_stack_page d q 0 s7"
  define s9 where "s9 = print_hex (locals s ''run_elf.buf'') (of_nat 4) (ph_vaddr s8 (ph_base s data) 0) 0xff0fff s8"
  have "elf_build data 4096 s = (d, q, memcpy_st (q + 3920 + hhdm (elf_segments d data (ph_base s data) 0 s9)) (elf_state s) 176
           (elf_segments d data (ph_base s data) 0 s9))"
    using q unfolding s9_def s8_def s7_def s6_def s3_def s2_def
    by (simp add: elf_build_def Let_def c elf_state_def ph_base_def add.commute [of q 3920])
  then have "d = c" "q = r" and t: "t = memcpy_st (r + of_nat 3920 + hhdm (elf_segments c data (ph_base s data) 0 s9)) (elf_state s) 176
           (elf_segments c data (ph_base s data) 0 s9)"
    using assms by auto
  show thesis
    by (rule that [OF c [unfolded \<open>d = c\<close>] s2_def [unfolded \<open>d = c\<close>] s3_def q [unfolded \<open>q = r\<close>] s6_def s7_def
          s8_def [unfolded \<open>d = c\<close> \<open>q = r\<close>] s9_def t])
qed

text \<open>The state with all segments.\<close>

lemma stage_segments:
  assumes L: "loader_ok b data n s" and st: "stage data n s c s9" and free: "4 * ph_num s data \<le> free_frames s9"
    and u: "u = elf_segments c data (ph_base s data) 0 s9"
  shows "stage data n s c u" "keeps s9 c u"
    "\<forall>j. loadable s data j \<longrightarrow> vidx v \<noteq> vidx (ph_vaddr s (ph_base s data) j) \<Longrightarrow>
       translate (mem u) c v = translate (mem s9) c v"
    "loadable s data j \<Longrightarrow> last_in_page s data j \<Longrightarrow> \<exists>f. placed s data j (mem u) c f \<and> own s9 c f"
    "i + 8 \<le> 176 \<Longrightarrow> load64 u (elf_state s + of_nat i) = load64 s9 (elf_state s + of_nat i)"
proof -
  have elf: "elf_ok s data n" using L by (simp add: loader_ok_def)
  have P9: "paging_ok s9 c" and io9: "same_but_io s s9" and f9: "file_same s data n s9"
    and for9: "\<forall>x\<in>foot (vtr s9) data n. foreign s9 c x"
    using st same_but_io_machine [of s s9] by (auto simp: stage_def)
  note H = file_same_header [OF elf f9] and LS = loadable_same [OF elf f9] and F = file_same_placed [OF elf f9]
  have "4 * (ph_num s9 data - 0) \<le> free_frames s9" using free H by simp
  note U = segments_doneD [OF elf_segments_spec [OF P9 LS(3) for9 _ this, unfolded H(1), folded u, OF le0]]
  show "keeps s9 c u" by (rule U(2))
  show "stage data n s c u" by (rule stage_keeps [OF st U(2,1)])
  show "translate (mem u) c v = translate (mem s9) c v"
    if "\<forall>j. loadable s data j \<longrightarrow> vidx v \<noteq> vidx (ph_vaddr s (ph_base s data) j)"
    using U(3) [of v] that F(3) LS(1) by auto
  show "\<exists>f. placed s data j (mem u) c f \<and> own s9 c f" if "loadable s data j" "last_in_page s data j"
    using U(4) [of j] that F(1,2) LS(1) by auto
  show "i + 8 \<le> 176 \<Longrightarrow> load64 u (elf_state s + of_nat i) = load64 s9 (elf_state s + of_nat i)"
    by (rule stage_state [OF st _ keepsD(1) [OF U(2)] keepsD(3) [OF U(2)]])
qed

text \<open>The last step: the context is copied to the top of the stack's frame.\<close>

lemma stage_context:
  assumes st: "stage data n s c u" and r: "r = of_nat (4096 * frame_of r)" "frame_of r < nframes s"
    and src: "\<forall>x\<in>foot (vtr s) (elf_state s) 176. frame_of x \<noteq> frame_of r"
    and own: "\<forall>x. frame_of x = frame_of r \<longrightarrow> foreign u c x"
    and t: "t = memcpy_st (r + of_nat 3920 + hhdm u) (elf_state s) 176 u"
  shows "paging_ok t c" "translate (mem t) c v = translate (mem u) c v" "foreign t c = foreign u c"
    "frame_of x \<noteq> frame_of r \<Longrightarrow> mem t x = mem u x"
    "i + 8 \<le> 176 \<Longrightarrow> ld64 (\<lambda>a. a) (mem t) (r + of_nat (3920 + i)) = load64 u (elf_state s + of_nat i)"
    "i + 8 \<le> 176 \<Longrightarrow> load64 t (elf_state s + of_nat i) = load64 u (elf_state s + of_nat i)"
proof -
  have ok: "paging_ok u c" and io: "same_but_io s u" using st by (simp_all add: stage_def)
  note e = same_but_io_machine [OF io] same_but_io_pmm [OF io]
  have win: "\<forall>a. frame_of a < nframes u \<longrightarrow> vtr u (a + hhdm u) = a" using paging_okD(2) [OF ok] by blast
  have r': "frame_of r < nframes u" "frame_of r < 4294967296"
    using r(2) e pmm_okD(1) [OF paging_okD(1) [OF ok]] by simp_all
  have src': "\<forall>x\<in>foot (vtr u) (elf_state s) (unat (176 :: u64)). frame_of x \<noteq> frame_of r" using src e by simp
  have le: "3920 + unat (176 :: u64) \<le> 4096" by simp
  note C = copy_to_frame [OF win r(1) r' le src', folded t]
  show other: "frame_of x \<noteq> frame_of r \<Longrightarrow> mem t x = mem u x" for x by (rule C(1))
  have same: "same_but_io u t" by (simp add: t same_but_mem_io)
  have "foreign u c x" if "mem t x \<noteq> mem u x" for x using other [of x] own that by blast
  note w = foreign_write [OF ok same this]
  show "paging_ok t c" "translate (mem t) c v = translate (mem u) c v" "foreign t c = foreign u c"
    using w by simp_all
  show "ld64 (\<lambda>a. a) (mem t) (r + of_nat (3920 + i)) = load64 u (elf_state s + of_nat i)" if i: "i + 8 \<le> 176" for i
  proof -
    have "mem t (r + of_nat (3920 + i) + of_nat k) = load8 u (elf_state s + of_nat i + of_nat k)" if "k < 8" for k
      using C(2) [of "3920 + i + k"] that i by (simp add: add.assoc)
    then have "ld_bytes (\<lambda>a. a) (mem t) (r + of_nat (3920 + i)) 8 = ld_bytes (vtr u) (mem u) (elf_state s + of_nat i) 8"
      by (simp add: ld_bytes_def ld8_def)
    then show ?thesis by (simp only: ld64_def)
  qed
  show "load64 t (elf_state s + of_nat i) = load64 u (elf_state s + of_nat i)" if "i + 8 \<le> 176" for i
    by (rule stage_state [OF st that _ same]) (use other src in blast)
qed

lemma elf_build_spec:
  assumes L: "loader_ok b data n s" and t: "elf_build data 4096 s = (c, r, t)"
  shows "\<forall>j. loadable s data j \<longrightarrow> vidx v \<noteq> vidx (ph_vaddr s (ph_base s data) j) \<Longrightarrow>
      translate (mem t) c v = (if vidx v = vidx 0x7FFF000 then Some (r OR 7)
        else if unat (getidx v 4) < 256 then None else translate (mem s) b v)"
    and "loadable s data j \<Longrightarrow> last_in_page s data j \<Longrightarrow> \<exists>f. placed s data j (mem t) c f \<and> own s b f"
    and "ld64 (\<lambda>a. a) (mem t) (r + 4056) = load64 s (data + 24)"
    and "ld64 (\<lambda>a. a) (mem t) (r + 3984) = 0x8000000"
    and "load64 t (elf_state s + 160) = 0x8000000 - 176"
    and "r = of_nat (4096 * frame_of r)" "frame_of r < nframes s"
    and "paging_ok t c" "foreign s b x \<Longrightarrow> foreign t c x" "own s b r"
proof -
  obtain s1 s2 s3 s4 s6 s7 s8 s9 v7 v9 where
    c: "newpml4 s = (c, s1)" and s2: "s2 = print_hex (locals s ''run_elf.buf2'') 15 c 0xff00ff s1"
    and s3: "s3 = store64 (elf_state s + 136) (load64 s2 (data + 24)) s2" and q: "pmalloc 1 s3 = (r, s4)"
    and s6: "s6 = store64 (elf_state s + of_nat 160) (0x8000000 - 176) (store64 (elf_state s + of_nat 64) 0x8000000 s4)"
    and s7: "s7 = print_hex (locals s ''run_elf.buf'') (of_nat 7) v7 0xffff s6"
    and s8: "s8 = elf_stack_page c r 0 s7"
    and s9: "s9 = print_hex (locals s ''run_elf.buf'') (of_nat 4) v9 0xff0fff s8"
    and t': "t = memcpy_st (r + of_nat 3920 + hhdm (elf_segments c data (ph_base s data) 0 s9)) (elf_state s) 176
           (elf_segments c data (ph_base s data) 0 s9)"
    by (rule elf_build_stages [OF t])
  note T = stage_table [OF L c s3 s2]
  have st3: "stage data n s c s3"
    using T(1,2,5,6) L same_but_io_machine [OF T(2)] by (auto simp: stage_def file_same_def loader_ok_def)
  have fr3: "4 + 4 * ph_num s data \<le> free_frames s3" using T(3) L by (simp add: loader_ok_def)
  then have "4 \<le> free_frames s3" by simp
  note S = stage_stack [OF st3 L this q s6 s7 s8 s9]
  define u where "u = elf_segments c data (ph_base s data) 0 s9"
  have "4 * ph_num s data \<le> free_frames s9" using S(2) fr3 by simp
  note U = stage_segments [OF L S(1) this u_def]
  have r: "r = of_nat (4096 * frame_of r)" "frame_of r < nframes s"
    using S(4,5) same_but_io_pmm [OF T(2)] by simp_all
  have "\<forall>x\<in>foot (vtr s) (elf_state s) 176. frame_of x \<noteq> frame_of r" using S(7) st3 by (auto simp: stage_def)
  moreover have "\<forall>x. frame_of x = frame_of r \<longrightarrow> foreign u c x" using S(6) keepsD(2) [OF U(2)] by blast
  ultimately have C: "paging_ok t c" "\<And>v. translate (mem t) c v = translate (mem u) c v" "foreign t c = foreign u c"
    "\<And>x. frame_of x \<noteq> frame_of r \<Longrightarrow> mem t x = mem u x"
    "\<And>i. i + 8 \<le> 176 \<Longrightarrow> ld64 (\<lambda>a. a) (mem t) (r + of_nat (3920 + i)) = load64 u (elf_state s + of_nat i)"
    "\<And>i. i + 8 \<le> 176 \<Longrightarrow> load64 t (elf_state s + of_nat i) = load64 u (elf_state s + of_nat i)"
    using stage_context [OF U(1) r _ _ t' [folded u_def]] by blast+
  have to9: "foreign s9 c x" if "foreign s b x" for x using S(8) T(5) that by blast
  show "r = of_nat (4096 * frame_of r)" "frame_of r < nframes s" "paging_ok t c" using r C(1) .
  show "foreign s b x \<Longrightarrow> foreign t c x" using to9 keepsD(2) [OF U(2)] C(3) by simp
  show "own s b r" using S(7) T(5) by (auto simp: own_def)
  show "translate (mem t) c v = (if vidx v = vidx 0x7FFF000 then Some (r OR 7)
        else if unat (getidx v 4) < 256 then None else translate (mem s) b v)"
    if "\<forall>j. loadable s data j \<longrightarrow> vidx v \<noteq> vidx (ph_vaddr s (ph_base s data) j)"
    using C(2) U(3) [OF that] S(3) [of v] T(4) [of v] by simp
  show "\<exists>f. placed s data j (mem t) c f \<and> own s b f" if l: "loadable s data j" "last_in_page s data j"
  proof -
    obtain f where f: "placed s data j (mem u) c f" "own s9 c f" using U(4) [OF l] by blast
    then have F: "frame_of f \<noteq> frame_of r" "f = of_nat (4096 * frame_of f)" "frame_of f < 4294967296"
      using S(6) [of r] by (auto simp: own_def placed_def)
    have "mem t (f + of_nat k) = mem u (f + of_nat k)" if "k < 4096" for k
      using C(4) frame_at [OF F(2,3) that] F(1) by simp
    then have "placed s data j (mem t) c f"
      using f(1) C(2) by (simp add: placed_def loaded_def)
    moreover have "own s b f" using f(2) to9 by (auto simp: own_def)
    ultimately show ?thesis by blast
  qed
  show "ld64 (\<lambda>a. a) (mem t) (r + 4056) = load64 s (data + 24)" "ld64 (\<lambda>a. a) (mem t) (r + 3984) = 0x8000000"
    "load64 t (elf_state s + 160) = 0x8000000 - 176"
    using C(5) [of 136] C(5) [of 64] C(6) [of 160] U(5) [of 136] U(5) [of 64] U(5) [of 160] S(9,10,11) T(7) by simp_all
qed

section \<open>The new process\<close>

definition new_table :: "'a tasks_scheme \<Rightarrow> u64" where
  "new_table t = pi_cr3 (processesinfo t ! unat (processnum t))"

text \<open>The state after a successful \<open>run_elf\<close>, in terms of what \<open>elf_build\<close> leaves.\<close>

lemma run_elf_registered:
  assumes ok: "sched_ok s" and check: "elf_check s data bytes = 0" and lt: "processnum s < 99"
    and u: "elf_build data 4096 s = (c, r, u)"
  obtains t p where "run_elf data bytes 4096 s = Ret SUCCESS t" "sched_ok t" "p = unat (processnum s) + 1"
    "unat (processnum t) = p" "process t = process s" "pi_cr3 (processesinfo t ! p) = c"
    "processes t ! p = load64 u (elf_state s + 160)" "mem t = mem u" "xlat t = xlat s" "cr3 t = cr3 s" "locals t = locals s"
    "fb_ok t = fb_ok s" "fb_region t = fb_region s" "paging_ok t = paging_ok u" "foreign t = foreign u"
proof -
  define p where "p = unat (processnum s) + 1"
  have "unat (processnum s) < 99" using lt by (simp add: word_less_nat_alt)
  then have p: "unat (processnum s + 1) = p" "p < 100" by (simp_all add: unat_word_ariths p_def)
  then have len: "p < length (processes s) \<and> p < length (processesinfo s)"
    using ok by (simp add: sched_ok_def)
  define t where "t = u\<lparr>processes := (processes s)[p := load64 u (elf_state s + 160)],
    processesinfo := (processesinfo s)[p := \<lparr>pi_cr3 = c\<rparr>], processnum := processnum s + 1\<rparr>"
  have io: "same_but_io s u" by (rule elf_build_io [OF u])
  have run: "run_elf data bytes 4096 s = Ret SUCCESS t"
    using run_elf_loaded [OF check refl u] len by (simp add: t_def p elf_state_def)
  moreover have "sched_ok t" using run_elf_registers_ok [OF ok check lt, of 4096] run by auto
  moreover have "paging_ok t = paging_ok u" "foreign t = foreign u"
    by (simp_all add: t_def fun_eq_iff paging_ok_def pmm_ok_def table_ok_def used_def nframes_def free_frames_def foreign_def)
  moreover have "fb_ok t = fb_ok s" "fb_region t = fb_region s"
    using same_but_io_fb [OF io] by (simp_all add: t_def fb_ok_def fb_bytes_def)
  ultimately show thesis
    using that [of t p] same_but_io_machine [OF io] same_but_io_tasks [OF io] p len by (simp add: t_def p_def)
qed

lemma run_elf_built:
  assumes "sched_ok s" "elf_check s data bytes = 0" "processnum s < 99"
  obtains c r u t where "elf_build data 4096 s = (c, r, u)" "run_elf data bytes 4096 s = Ret SUCCESS t"
    and "mem t = mem u" "new_table t = c" "processes t ! unat (processnum t) = load64 u (elf_state s + 160)"
proof -
  obtain c r u where u: "elf_build data 4096 s = (c, r, u)" by (cases "elf_build data 4096 s")
  show thesis
  proof (rule run_elf_registered [OF assms u])
    fix t p
    assume "run_elf data bytes 4096 s = Ret SUCCESS t" "unat (processnum t) = p" "pi_cr3 (processesinfo t ! p) = c"
      "processes t ! p = load64 u (elf_state s + 160)" "mem t = mem u"
    then show thesis by (intro that [OF u, of t]) (simp_all add: new_table_def)
  qed
qed

text \<open>
  C13. The address space of a new process, page by page. The hypotheses: a well-formed scheduler with
  room, a file that passes the checks, a stack of one page, and \<open>loader_ok\<close> (a well-formed allocator and
  boot tables, enough free frames, segments of at most a page, and the screen, the file and the loader's
  local arrays away from all of them; after \<open>pmm_init\<close> in the higher half the allocator is not well
  formed, see C37). Then the processor's walk of the new table finds, for every address: in the page of a
  segment a frame from the pool, writable but closed to user mode; else, in the page below
  \<open>0x8000000\<close>, the stack's frame, open to user mode; else nothing in the lower half, and in the upper half what the
  boot tables have there.
\<close>

theorem run_elf_address_space:
  assumes "sched_ok s" "elf_check s data bytes = 0" "processnum s < 99" "loader_ok b data (unat bytes) s"
  shows "\<exists>t r. run_elf data bytes 4096 s = Ret SUCCESS t \<and> r = of_nat (4096 * frame_of r) \<and> frame_of r < nframes s \<and> own s b r \<and>
    (\<forall>v. if \<exists>j. loadable s data j \<and> vidx v = vidx (ph_vaddr s (ph_base s data) j)
      then \<exists>f. translate (mem t) (new_table t) v = Some (f OR 3) \<and> f = of_nat (4096 * frame_of f) \<and> own s b f
      else translate (mem t) (new_table t) v =
         (if vidx v = vidx 0x7FFF000 then Some (r OR 7)
          else if unat (getidx v 4) < 256 then None else translate (mem s) b v))"
proof -
  obtain c r u t where u: "elf_build data 4096 s = (c, r, u)" and t: "run_elf data bytes 4096 s = Ret SUCCESS t"
    "mem t = mem u" "new_table t = c"
    using run_elf_built [OF assms(1-3)] by metis
  note B = elf_build_spec [OF assms(4) u]
  have seg: "\<exists>f. translate (mem u) c v = Some (f OR 3) \<and> f = of_nat (4096 * frame_of f) \<and> own s b f"
    if i: "loadable s data i" "vidx v = vidx (ph_vaddr s (ph_base s data) i)" for v i
  proof -
    obtain j where j: "loadable s data j" "last_in_page s data j" "vidx v = vidx (ph_vaddr s (ph_base s data) j)"
      by (rule last_segment [OF i])
    then show ?thesis using B(2) [OF j(1,2)] unfolding placed_def translate_def by metis
  qed
  have "if \<exists>j. loadable s data j \<and> vidx v = vidx (ph_vaddr s (ph_base s data) j)
      then \<exists>f. translate (mem t) (new_table t) v = Some (f OR 3) \<and> f = of_nat (4096 * frame_of f) \<and> own s b f
      else translate (mem t) (new_table t) v =
         (if vidx v = vidx 0x7FFF000 then Some (r OR 7)
          else if unat (getidx v 4) < 256 then None else translate (mem s) b v)" for v
  proof (cases "\<exists>j. loadable s data j \<and> vidx v = vidx (ph_vaddr s (ph_base s data) j)")
    case True
    then show ?thesis using seg unfolding t(2,3) by (simp only: if_P) blast
  next
    case False
    then have "\<forall>j. loadable s data j \<longrightarrow> vidx v \<noteq> vidx (ph_vaddr s (ph_base s data) j)" by blast
    from B(1) [OF this] show ?thesis unfolding t(2,3) by (subst if_not_P [OF False])
  qed
  then show ?thesis using t(1) B(6,7,10) by blast
qed

text \<open>
  C14. Where the bytes of a segment are. Under the hypotheses of C13, let a program header of type 1 give a
  segment of at most a page, whose page no later segment takes. In the new address space the page
  of its address holds the bytes of the file, and zeros after them, from the start of the page on. A
  page-aligned segment therefore is where the file says; the loader drops the offset of any other, so
  the address \<open>p_vaddr + k\<close> holds byte \<open>p_vaddr mod 4096 + k\<close> of the segment.
\<close>

theorem run_elf_places_segments:
  assumes "sched_ok s" "elf_check s data bytes = 0" "processnum s < 99" "loader_ok b data (unat bytes) s"
    and "loadable s data j" "last_in_page s data j" "a = ph_vaddr s (ph_base s data) j"
  shows "\<exists>t. run_elf data bytes 4096 s = Ret SUCCESS t \<and>
    (\<forall>w. page_of w = page_of a \<longrightarrow> virt_byte (mem t) (new_table t) w = Some (segment_byte s data j (unat (w AND 0xFFF)))) \<and>
    (page_of a = a \<longrightarrow> (\<forall>k<4096. virt_byte (mem t) (new_table t) (a + of_nat k) = Some (segment_byte s data j k)))"
proof -
  obtain c r u t where u: "elf_build data 4096 s = (c, r, u)" and t: "run_elf data bytes 4096 s = Ret SUCCESS t"
    "mem t = mem u" "new_table t = c"
    using run_elf_built [OF assms(1-3)] by metis
  have "at_page_start s data j (mem t) (new_table t)"
    using elf_build_spec(2) [OF assms(4) u assms(5,6)] t(2,3) placed_page by metis
  then show ?thesis
    using t(1) aligned_segment unfolding assms(7) at_page_start_def by blast
qed

text \<open>
  The context the scheduler will resume: the registered stack pointer is \<open>0x7FFFF50\<close>, in the stack
  page (unless a segment takes that page), and in the frame behind it the saved instruction pointer,
  136 bytes further, is the entry point of the file; the saved \<open>rbp\<close> is the top of the stack.
\<close>

lemma run_elf_saves_context:
  assumes "sched_ok s" "elf_check s data bytes = 0" "processnum s < 99" "loader_ok b data (unat bytes) s"
    and "\<forall>j. loadable s data j \<longrightarrow> vidx 0x7FFFF50 \<noteq> vidx (ph_vaddr s (ph_base s data) j)"
  shows "\<exists>t r. run_elf data bytes 4096 s = Ret SUCCESS t \<and> processes t ! unat (processnum t) = 0x7FFFF50 \<and>
    translate (mem t) (new_table t) 0x7FFFF50 = Some (r OR 7) \<and>
    ld64 (\<lambda>a. a) (mem t) (r + 0xF50 + 136) = load64 s (data + 24) \<and>
    ld64 (\<lambda>a. a) (mem t) (r + 0xF50 + 64) = 0x8000000"
proof -
  obtain c r u t where u: "elf_build data 4096 s = (c, r, u)" and t: "run_elf data bytes 4096 s = Ret SUCCESS t"
    "mem t = mem u" "new_table t = c" "processes t ! unat (processnum t) = load64 u (elf_state s + 160)"
    using run_elf_built [OF assms(1-3)] by metis
  note B = elf_build_spec [OF assms(4) u]
  have "vidx 0x7FFFF50 = vidx 0x7FFF000" by (simp add: vidx_def getidx_def)
  then have "translate (mem u) c 0x7FFFF50 = Some (r OR 7)"
    using B(1) [OF assms(5)] by simp
  then show ?thesis
    using B(3-5) t by (intro exI [of _ t] exI [of _ r]) (simp add: add.assoc)
qed

text \<open>
  A machine for the witnesses: sixteen frames, the first two in use, the empty boot table in frame 1,
  and a file of 200 bytes at \<open>0x400000\<close> with one segment of four bytes for the address \<open>0x400000\<close>.
\<close>

definition loader_sample :: tasks where
  "loader_sample = sched_sample\<lparr>process := 3, pmm_map_size := 2, fb_addr := 0x200000,
     locals := (\<lambda>x. if x = ''run_elf.buf'' then 0x300000 else if x = ''run_elf.buf2'' then 0x300100 else 0x300200),
     mem := (\<lambda>a. if a = 0x100000 then 3 else if a = 0x400000 then 0x7F else if a = 0x400004 then 2
       else if a = 0x400005 then 1 else if a = 0x400010 then 2 else if a = 0x400012 then 0x3E
       else if a = 0x40001A then 0x40 else if a = 0x400020 then 64 else if a = 0x400038 then 1
       else if a = 0x400040 then 1 else if a = 0x400048 then 120 else if a = 0x400052 then 0x40
       else if a = 0x400060 then 4 else if a = 0x400068 then 8 else if a = 0x400078 then 0xEB
       else if a = 0x400079 then 0xFE else 0)\<rparr>"

lemma loader_sample_fields:
  "xlat loader_sample = (\<lambda>_ a. a)" "pmm_map loader_sample = 0x100000" "pmm_map_size loader_sample = 2"
  "hhdm loader_sample = 0" "start_pml4 loader_sample = 0x1800" "fb_addr loader_sample = 0x200000"
  "fb_width loader_sample = 16" "fb_height loader_sample = 32" "fb_pitch loader_sample = 64"
  "processnum loader_sample = 3" "process loader_sample = 3" "locals loader_sample ''clock_handler.buf'' = 0x300200" "locals loader_sample ''run_elf.buf'' = 0x300000"
  "locals loader_sample ''run_elf.buf2'' = 0x300100" "locals loader_sample ''run_elf.state'' = 0x300200"
  by (simp_all add: loader_sample_def sched_sample_def vmm.defs paging_sample_def pmm.defs pmm_sample_def)

lemma loader_sample_mem: "mem loader_sample = (\<lambda>a. if a = 0x100000 then 3 else if a = 0x400000 then 0x7F else if a = 0x400004 then 2
       else if a = 0x400005 then 1 else if a = 0x400010 then 2 else if a = 0x400012 then 0x3E
       else if a = 0x40001A then 0x40 else if a = 0x400020 then 64 else if a = 0x400038 then 1
       else if a = 0x400040 then 1 else if a = 0x400048 then 120 else if a = 0x400052 then 0x40
       else if a = 0x400060 then 4 else if a = 0x400068 then 8 else if a = 0x400078 then 0xEB
       else if a = 0x400079 then 0xFE else 0)"
  by (simp add: loader_sample_def)

lemma loader_sample_header:
  "load64 loader_sample (0x400000 + 32) = 64" "load16 loader_sample (0x400000 + 56) = 1"
  "load64 loader_sample (0x400000 + 24) = 0x400000"
  by (simp_all add: loader_sample_fields loader_sample_mem ld64_def ld16_def ld_bytes_def ld8_def upt_rec)

lemma loader_sample_ph:
  "ph_base loader_sample 0x400000 = 0x400040" "ph_num loader_sample 0x400000 = 1"
  "ph_type loader_sample 0x400040 0 = 1" "ph_offset loader_sample 0x400040 0 = 120"
  "ph_vaddr loader_sample 0x400040 0 = 0x400000" "ph_filesz loader_sample 0x400040 0 = 4"
  "ph_memsz loader_sample 0x400040 0 = 8"
  unfolding ph_base_def ph_num_def loader_sample_header
  by (simp_all add: ph_type_def ph_offset_def ph_vaddr_def ph_filesz_def ph_memsz_def ph_entry_def
      loader_sample_fields loader_sample_mem ld64_def ld32_def ld_bytes_def ld8_def upt_rec)

lemma elf_check_loader_sample: "elf_check loader_sample 0x400000 200 = 0"
  by (simp add: elf_check_def loader_sample_fields loader_sample_mem ld16_def ld_bytes_def ld8_def upt_rec)

lemma loadable_sample: "loadable loader_sample 0x400000 j \<longleftrightarrow> j = 0"
  by (auto simp: loadable_def loader_sample_ph)

lemma foot_id_range:
  assumes "x \<in> foot (\<lambda>a. a) a n" "unat a + n < 18446744073709551616"
  shows "unat a \<le> unat x \<and> unat x < unat a + n"
proof -
  obtain k where k: "k < n" "x = a + of_nat k" using assms(1) by (auto simp: foot_def)
  then have "unat x = unat a + k"
    using assms(2) by (simp add: unat_word_ariths unat_of_nat64)
  then show ?thesis using k(1) by simp
qed

lemma bit_three: "bit (3 :: int) i \<longleftrightarrow> i < 2"
proof -
  have m: "(3 :: int) = mask 2" by (simp add: mask_eq_exp_minus_1)
  show ?thesis unfolding m bit_mask_iff by auto
qed

lemma used_loader_sample: "k < 16 \<Longrightarrow> used loader_sample k \<longleftrightarrow> k < 2"
proof -
  assume k: "k < 16"
  show "used loader_sample k \<longleftrightarrow> k < 2"
  proof (cases "k < 8")
    case True
    then have "k div 8 = 0" "k mod 8 = k" by simp_all
    then show ?thesis
      by (auto simp add: used_iff_mem loader_sample_fields loader_sample_mem bit_three)
  next
    case False
    then have "k div 8 = 1" using k by simp
    then show ?thesis using False by (simp add: used_iff_mem loader_sample_fields loader_sample_mem)
  qed
qed

lemma loader_sample_pte: "j < 512 \<Longrightarrow> pte (mem loader_sample) 0x1000 j = 0"
  by (rule zero_frame_pte [of _ 1]) (auto simp: frame_of_def loader_sample_mem)

lemma loader_sample_table:
  "p \<in> paths \<Longrightarrow> table_at (mem loader_sample) 0x1000 p = (if p = [] then Some 0x1000 else None)"
  by (cases p) (auto simp: loader_sample_pte paths_def)

lemma nframes_loader_sample: "nframes loader_sample = 16"
  by (simp add: nframes_def loader_sample_fields)

lemma bm_loader_sample: "bm_region loader_sample = {0x100000, 0x100001}"
proof -
  have "{..<2} = {0, 1 :: nat}" by auto
  then show ?thesis by (simp add: foot_def loader_sample_fields)
qed

lemma paging_ok_loader_sample: "paging_ok loader_sample 0x1000"
proof -
  have "pmm_ok loader_sample"
    unfolding pmm_ok_def bm_loader_sample
    by (simp add: nframes_loader_sample loader_sample_fields inj_at_id used_loader_sample frame_of_def)
  moreover have "table_ok loader_sample 0x1000"
    unfolding table_ok_def bm_loader_sample by (simp add: nframes_loader_sample frame_of_def used_loader_sample)
  moreover have "small_pages (mem loader_sample) 0x1000"
    unfolding small_pages_def
    by (auto simp: loader_sample_table loader_sample_pte dest!: paths_snoc split: if_splits)
  ultimately show ?thesis
    unfolding paging_ok_def by (auto simp: loader_sample_table loader_sample_fields split: if_splits)
qed

lemma free_frames_loader_sample: "free_frames loader_sample = 14"
proof -
  have "{k. k < nframes loader_sample \<and> \<not> used loader_sample k} = {2..<16}"
    by (auto simp: nframes_loader_sample used_loader_sample)
  then show ?thesis by (simp add: free_frames_def)
qed

lemma foreign_loader_sample: "0x200000 \<le> unat x \<Longrightarrow> foreign loader_sample 0x1000 x"
  unfolding foreign_def bm_loader_sample
  by (auto simp: nframes_loader_sample frame_of_def loader_sample_table split: if_splits)

lemma loader_ok_sample: "loader_ok 0x1000 0x400000 200 loader_sample"
proof -
  have fb: "fb_bytes loader_sample = 2048"
    by (simp add: fb_bytes_def loader_sample_fields)
  note R = foot_id_range
  have P: "x \<in> elf_prints loader_sample \<Longrightarrow> 0x200000 \<le> unat x \<and> unat x < 0x300200" for x
    using R [of x "0x200000" 2048] R [of x "0x300000" 17] R [of x "0x300100" 17]
    by (auto simp: elf_prints_def loader_sample_fields fb)
  have S: "x \<in> foot (\<lambda>a. a) 0x300200 176 \<Longrightarrow> 0x300200 \<le> unat x \<and> unat x < 0x300300" for x
    using R [of x "0x300200" 176] by auto
  have D: "x \<in> foot (\<lambda>a. a) 0x400000 200 \<Longrightarrow> 0x400000 \<le> unat x" for x
    using R [of x "0x400000" 200] by auto
  have "elf_ok loader_sample 0x400000 200"
    unfolding elf_ok_def loader_sample_header by (simp add: loader_sample_ph loadable_sample)
  moreover have "fb_ok loader_sample"
    by (simp add: fb_ok_def fb loader_sample_fields inj_at_id)
  ultimately show ?thesis
    unfolding loader_ok_def
    using paging_ok_loader_sample free_frames_loader_sample P S D foreign_loader_sample
    by (fastforce simp: loader_sample_fields elf_state_def inj_at_id loader_sample_ph)
qed

lemma sched_ok_loader_sample: "sched_ok loader_sample"
  using sched_ok_sample by (simp add: sched_ok_def loader_sample_def)

lemmas loader_sample_file = sched_ok_loader_sample elf_check_loader_sample

theorem run_elf_address_space_witness:
  "\<exists>t r f. run_elf 0x400000 200 4096 loader_sample = Ret SUCCESS t \<and> frame_of r < 16 \<and>
     translate (mem t) (new_table t) 0x7FFF123 = Some (r OR 7) \<and> translate (mem t) (new_table t) 0x1000000 = None \<and>
     translate (mem t) (new_table t) 0x400002 = Some (f OR 3)"
proof -
  have v: "vidx 0x7FFF123 = vidx 0x7FFF000" "vidx 0x7FFF123 \<noteq> vidx 0x400000" "vidx 0x1000000 \<noteq> vidx 0x7FFF000"
    "vidx 0x1000000 \<noteq> vidx 0x400000" "unat (getidx 0x1000000 4) < 256" "vidx 0x400002 = vidx 0x400000"
    by (simp_all add: vidx_def getidx_def)
  have "processnum loader_sample < 99" "loader_ok 0x1000 0x400000 (unat (200 :: u32)) loader_sample"
    using loader_ok_sample by (simp_all add: loader_sample_fields)
  from run_elf_address_space [OF loader_sample_file this]
  obtain t r where t: "run_elf 0x400000 200 4096 loader_sample = Ret SUCCESS t" "frame_of r < nframes loader_sample"
    and tr: "\<And>v. if \<exists>j. loadable loader_sample 0x400000 j \<and> vidx v = vidx (ph_vaddr loader_sample (ph_base loader_sample 0x400000) j)
      then \<exists>f. translate (mem t) (new_table t) v = Some (f OR 3) \<and> f = of_nat (4096 * frame_of f) \<and> own loader_sample 0x1000 f
      else translate (mem t) (new_table t) v = (if vidx v = vidx 0x7FFF000 then Some (r OR 7)
        else if unat (getidx v 4) < 256 then None else translate (mem loader_sample) 0x1000 v)"
    by blast
  have "\<exists>f. translate (mem t) (new_table t) 0x400002 = Some (f OR 3)"
    using tr [of "0x400002"] v(6) by (auto simp: loadable_sample loader_sample_ph)
  then show ?thesis
    using t tr [of "0x7FFF123"] tr [of "0x1000000"] v
    by (auto simp: loadable_sample loader_sample_ph nframes_loader_sample)
qed

theorem run_elf_places_segments_witness:
  "\<exists>t. run_elf 0x400000 200 4096 loader_sample = Ret SUCCESS t \<and> virt_byte (mem t) (new_table t) 0x400001 = Some 0xFE \<and>
     virt_byte (mem t) (new_table t) 0x400005 = Some 0"
proof -
  have "processnum loader_sample < 99" "loader_ok 0x1000 0x400000 (unat (200 :: u32)) loader_sample"
    using loader_ok_sample by (simp_all add: loader_sample_fields)
  note O = run_elf_places_segments [OF loader_sample_file this, of 0, OF _ _ refl]
  have a: "page_of 0x400000 = 0x400000" by (simp add: page_of_def)
  have b: "segment_byte loader_sample 0x400000 0 1 = 0xFE" "segment_byte loader_sample 0x400000 0 5 = 0"
    by (simp_all add: segment_byte_def loader_sample_ph ld8_def loader_sample_fields loader_sample_mem)
  obtain t where t: "run_elf 0x400000 200 4096 loader_sample = Ret SUCCESS t"
    "\<And>k. k < 4096 \<Longrightarrow> virt_byte (mem t) (new_table t) (0x400000 + of_nat k) = Some (segment_byte loader_sample 0x400000 0 k)"
    using O a by (auto simp: loadable_sample last_in_page_def loader_sample_ph)
  show ?thesis using t(1) t(2) [of 1] t(2) [of 5] b by auto
qed

lemma run_elf_saves_context_witness:
  "\<exists>t r. run_elf 0x400000 200 4096 loader_sample = Ret SUCCESS t \<and> processes t ! unat (processnum t) = 0x7FFFF50 \<and>
     translate (mem t) (new_table t) 0x7FFFF50 = Some (r OR 7) \<and>
     ld64 (\<lambda>a. a) (mem t) (r + 0xF50 + 136) = 0x400000"
proof -
  have "processnum loader_sample < 99" "loader_ok 0x1000 0x400000 (unat (200 :: u32)) loader_sample"
    using loader_ok_sample by (simp_all add: loader_sample_fields)
  note O = run_elf_saves_context [OF loader_sample_file this]
  have "\<forall>j. loadable loader_sample 0x400000 j \<longrightarrow>
      vidx 0x7FFFF50 \<noteq> vidx (ph_vaddr loader_sample (ph_base loader_sample 0x400000) j)"
    by (simp add: loadable_sample loader_sample_ph vidx_def getidx_def)
  from O [OF this] show ?thesis using loader_sample_header by auto
qed

end
