(* ===== verification/Process.thy ===== *)
theory Process
  imports Loader
begin

text \<open>
  From the loaded file to the first switch: the process \<open>run_elf\<close> registers is the one the next timer
  interrupt resumes, on its own tables, at its entry point.
\<close>

section \<open>What the timer interrupt writes\<close>

lemma pmm_upd_tempdebug:
  "used (s\<lparr>tempdebug := n\<rparr>) = used s" "nframes (s\<lparr>tempdebug := n\<rparr>) = nframes s"
  "free_frames (s\<lparr>tempdebug := n\<rparr>) = free_frames s"
  by (simp_all add: used_def [abs_def] nframes_def free_frames_def)

lemma paging_ok_tempdebug [simp]: "paging_ok (s\<lparr>tempdebug := n\<rparr>) pt = paging_ok s pt"
  by (simp add: paging_ok_def pmm_ok_def table_ok_def [abs_def] pmm_upd_tempdebug)

lemma foreign_tempdebug [simp]: "foreign (s\<lparr>tempdebug := n\<rparr>) pt = foreign s pt"
  by (simp add: foreign_def [abs_def] pmm_upd_tempdebug)



section \<open>The first switch\<close>



end
