(* ===== verification/Layout.thy ===== *)
theory Layout
  imports Kernel
begin

text \<open>
  The C structures: \<open>stivale2.h\<close>, \<open>tasks.h\<close>, \<open>fat32.h\<close>, \<open>interrupts.h\<close>, \<open>gdt.h\<close> and the header
  \<open>kernel.c\<close> leaves for the boot loader. A declaration gives each member its place by the rules of the
  System V ABI for x86-64; the operations of the other theories read at constant offsets, and
  \<open>readers_follow_declarations\<close> compares most of these with the declared ones. \<open>_stivale2_split64\<close> is a \<open>uint64_t\<close> in a 64-bit build.
\<close>

section \<open>The layout of a structure\<close>

record ctype =
  csize :: nat
  calign :: nat
  members :: "(string \<times> nat \<times> nat) list"

definition scalar :: "nat \<Rightarrow> ctype" where
  "scalar n = \<lparr>csize = n, calign = n, members = []\<rparr>"

abbreviation "c_u8 \<equiv> scalar 1"
abbreviation "c_u16 \<equiv> scalar 2"
abbreviation "c_u32 \<equiv> scalar 4"
abbreviation "c_u64 \<equiv> scalar 8"

text \<open>An array; a flexible array member has length 0.\<close>

definition arr :: "ctype \<Rightarrow> nat \<Rightarrow> ctype" where
  "arr t n = \<lparr>csize = n * csize t, calign = calign t, members = []\<rparr>"

definition round_up :: "nat \<Rightarrow> nat \<Rightarrow> nat" where
  "round_up a n = (n + a - 1) div a * a"

text \<open>Members from offset \<open>p\<close> on: name, offset and size of each, and where the last one ends.\<close>

fun lay_out :: "nat \<Rightarrow> (string \<times> ctype) list \<Rightarrow> (string \<times> nat \<times> nat) list \<times> nat" where
  "lay_out p [] = ([], p)"
| "lay_out p ((f, t) # fs) =
     (let a = round_up (calign t) p; (ms, e) = lay_out (a + csize t) fs in ((f, a, csize t) # ms, e))"

definition max_align :: "(string \<times> ctype) list \<Rightarrow> nat" where
  "max_align fs = foldr (\<lambda>(f, t) a. max (calign t) a) fs 1"

definition c_struct :: "(string \<times> ctype) list \<Rightarrow> ctype" where
  "c_struct fs = \<lparr>csize = round_up (max_align fs) (snd (lay_out 0 fs)), calign = max_align fs,
     members = fst (lay_out 0 fs)\<rparr>"

text \<open>\<open>__attribute__((packed))\<close>, and a union.\<close>

definition c_packed :: "(string \<times> ctype) list \<Rightarrow> ctype" where
  "c_packed fs = c_struct (map (\<lambda>(f, t). (f, t\<lparr>calign := 1\<rparr>)) fs)"

definition c_union :: "(string \<times> ctype) list \<Rightarrow> ctype" where
  "c_union fs = \<lparr>csize = round_up (max_align fs) (foldr (\<lambda>(f, t) n. max (csize t) n) fs 0), calign = max_align fs,
     members = map (\<lambda>(f, t). (f, 0, csize t)) fs\<rparr>"

definition offset_of :: "ctype \<Rightarrow> string \<Rightarrow> nat" where
  "offset_of t f = fst (the (map_of (members t) f))"

definition size_of_member :: "ctype \<Rightarrow> string \<Rightarrow> nat" where
  "size_of_member t f = snd (the (map_of (members t) f))"

section \<open>What the rules give\<close>

lemma round_up:
  assumes "0 < a"
  shows "n \<le> round_up a n" "a dvd round_up a n"
proof -
  have "n + a - 1 = (n + a - 1) div a * a + (n + a - 1) mod a" by simp
  moreover have "(n + a - 1) mod a \<le> a - 1" using assms by (simp add: Suc_leI less_Suc_eq_le [symmetric])
  ultimately show "n \<le> round_up a n" unfolding round_up_def using assms by linarith
qed (simp add: round_up_def)

lemma round_up_1 [simp]: "round_up 1 n = n" "round_up (Suc 0) n = n"
  by (simp_all add: round_up_def)

section \<open>\<open>stivale2.h\<close>\<close>

text \<open>A tag is its identifier and the layout of its structure.\<close>

definition stivale2_anchor :: ctype where
  "stivale2_anchor =
     c_struct [(''anchor'', arr c_u8 15), (''bits'', c_u8), (''phys_load_addr'', c_u64),
     (''phys_bss_start'', c_u64), (''phys_bss_end'', c_u64), (''phys_stivale2hdr'', c_u64)]"

definition stivale2_tag :: ctype where
  "stivale2_tag =
     c_struct [(''identifier'', c_u64), (''next'', c_u64)]"

definition stivale2_header :: ctype where
  "stivale2_header =
     c_struct [(''entry_point'', c_u64), (''stack'', c_u64), (''flags'', c_u64), (''tags'', c_u64)]"

definition stivale2_header_tag_any_video :: "u64 \<times> ctype" where
  "stivale2_header_tag_any_video = (0xc75c9fa92a44c4db,
     c_struct [(''tag'', stivale2_tag), (''preference'', c_u64)])"

definition stivale2_header_tag_framebuffer :: "u64 \<times> ctype" where
  "stivale2_header_tag_framebuffer = (0x3ecc1bc43d0f7971,
     c_struct [(''tag'', stivale2_tag), (''framebuffer_width'', c_u16), (''framebuffer_height'', c_u16),
     (''framebuffer_bpp'', c_u16), (''unused'', c_u16)])"

definition stivale2_header_tag_slide_hhdm :: "u64 \<times> ctype" where
  "stivale2_header_tag_slide_hhdm = (0xdc29269c2af53d1d,
     c_struct [(''tag'', stivale2_tag), (''flags'', c_u64), (''alignment'', c_u64)])"

definition stivale2_header_tag_terminal :: "u64 \<times> ctype" where
  "stivale2_header_tag_terminal = (0xa85d499b1823be72,
     c_struct [(''tag'', stivale2_tag), (''flags'', c_u64), (''callback'', c_u64)])"

definition stivale2_header_tag_smp :: "u64 \<times> ctype" where
  "stivale2_header_tag_smp = (0x1ab015085f3273df,
     c_struct [(''tag'', stivale2_tag), (''flags'', c_u64)])"

definition stivale2_struct :: ctype where
  "stivale2_struct =
     c_struct [(''bootloader_brand'', arr c_u8 64), (''bootloader_version'', arr c_u8 64), (''tags'', c_u64)]"

definition stivale2_pmr :: ctype where
  "stivale2_pmr =
     c_struct [(''base'', c_u64), (''length'', c_u64), (''permissions'', c_u64)]"

definition stivale2_struct_tag_pmrs :: "u64 \<times> ctype" where
  "stivale2_struct_tag_pmrs = (0x5df266a64047b6bd,
     c_struct [(''tag'', stivale2_tag), (''entries'', c_u64), (''pmrs'', arr stivale2_pmr 0)])"

definition stivale2_struct_tag_kernel_base_address :: "u64 \<times> ctype" where
  "stivale2_struct_tag_kernel_base_address = (0x060d78874a2a8af0,
     c_struct [(''tag'', stivale2_tag), (''physical_base_address'', c_u64), (''virtual_base_address'', c_u64)])"

definition stivale2_struct_tag_cmdline :: "u64 \<times> ctype" where
  "stivale2_struct_tag_cmdline = (0xe5e76a1b4597a781,
     c_struct [(''tag'', stivale2_tag), (''cmdline'', c_u64)])"

definition stivale2_mmap_entry :: ctype where
  "stivale2_mmap_entry =
     c_struct [(''base'', c_u64), (''length'', c_u64), (''type'', c_u32), (''unused'', c_u32)]"

definition stivale2_struct_tag_memmap :: "u64 \<times> ctype" where
  "stivale2_struct_tag_memmap = (MEMMAP_ID,
     c_struct [(''tag'', stivale2_tag), (''entries'', c_u64), (''memmap'', arr stivale2_mmap_entry 0)])"

definition stivale2_struct_tag_framebuffer :: "u64 \<times> ctype" where
  "stivale2_struct_tag_framebuffer = (FRAMEBUFFER_ID,
     c_struct [(''tag'', stivale2_tag), (''framebuffer_addr'', c_u64), (''framebuffer_width'', c_u16),
     (''framebuffer_height'', c_u16), (''framebuffer_pitch'', c_u16), (''framebuffer_bpp'', c_u16),
     (''memory_model'', c_u8), (''red_mask_size'', c_u8), (''red_mask_shift'', c_u8),
     (''green_mask_size'', c_u8), (''green_mask_shift'', c_u8), (''blue_mask_size'', c_u8),
     (''blue_mask_shift'', c_u8), (''unused'', c_u8)])"

definition stivale2_struct_tag_edid :: "u64 \<times> ctype" where
  "stivale2_struct_tag_edid = (0x968609d7af96b845,
     c_struct [(''tag'', stivale2_tag), (''edid_size'', c_u64), (''edid_information'', arr c_u8 0)])"

definition stivale2_struct_tag_textmode :: "u64 \<times> ctype" where
  "stivale2_struct_tag_textmode = (0x38d74c23e0dca893,
     c_struct [(''tag'', stivale2_tag), (''address'', c_u64), (''unused'', c_u16), (''rows'', c_u16),
     (''cols'', c_u16), (''bytes_per_char'', c_u16)])"

definition stivale2_struct_tag_terminal :: "u64 \<times> ctype" where
  "stivale2_struct_tag_terminal = (0xc2b3f4c3233b0974,
     c_struct [(''tag'', stivale2_tag), (''flags'', c_u32), (''cols'', c_u16), (''rows'', c_u16),
     (''term_write'', c_u64), (''max_length'', c_u64)])"

definition stivale2_module :: ctype where
  "stivale2_module =
     c_struct [(''begin'', c_u64), (''end'', c_u64), (''string'', arr c_u8 128)]"

definition stivale2_struct_tag_modules :: "u64 \<times> ctype" where
  "stivale2_struct_tag_modules = (MODULES_ID,
     c_struct [(''tag'', stivale2_tag), (''module_count'', c_u64), (''modules'', arr stivale2_module 0)])"

definition stivale2_struct_tag_rsdp :: "u64 \<times> ctype" where
  "stivale2_struct_tag_rsdp = (0x9e1786930a375e78,
     c_struct [(''tag'', stivale2_tag), (''rsdp'', c_u64)])"

definition stivale2_struct_tag_epoch :: "u64 \<times> ctype" where
  "stivale2_struct_tag_epoch = (0x566a7bed888e1407,
     c_struct [(''tag'', stivale2_tag), (''epoch'', c_u64)])"

definition stivale2_struct_tag_firmware :: "u64 \<times> ctype" where
  "stivale2_struct_tag_firmware = (0x359d837855e3858c,
     c_struct [(''tag'', stivale2_tag), (''flags'', c_u64)])"

definition stivale2_struct_tag_efi_system_table :: "u64 \<times> ctype" where
  "stivale2_struct_tag_efi_system_table = (0x4bc5ec15845b558e,
     c_struct [(''tag'', stivale2_tag), (''system_table'', c_u64)])"

definition stivale2_struct_tag_kernel_file :: "u64 \<times> ctype" where
  "stivale2_struct_tag_kernel_file = (0xe599d90c2975584a,
     c_struct [(''tag'', stivale2_tag), (''kernel_file'', c_u64)])"

definition stivale2_struct_tag_kernel_file_v2 :: "u64 \<times> ctype" where
  "stivale2_struct_tag_kernel_file_v2 = (0x37c13018a02c6ea2,
     c_struct [(''tag'', stivale2_tag), (''kernel_file'', c_u64), (''kernel_size'', c_u64)])"

definition stivale2_guid :: ctype where
  "stivale2_guid =
     c_struct [(''a'', c_u32), (''b'', c_u16), (''c'', c_u16), (''d'', arr c_u8 8)]"

definition stivale2_struct_tag_boot_volume :: "u64 \<times> ctype" where
  "stivale2_struct_tag_boot_volume = (0x9b4358364c19ee62,
     c_struct [(''tag'', stivale2_tag), (''flags'', c_u64), (''guid'', stivale2_guid),
     (''part_guid'', stivale2_guid)])"

definition stivale2_struct_tag_kernel_slide :: "u64 \<times> ctype" where
  "stivale2_struct_tag_kernel_slide = (0xee80847d01506c57,
     c_struct [(''tag'', stivale2_tag), (''kernel_slide'', c_u64)])"

definition stivale2_struct_tag_smbios :: "u64 \<times> ctype" where
  "stivale2_struct_tag_smbios = (0x274bd246c62bf7d1,
     c_struct [(''tag'', stivale2_tag), (''flags'', c_u64), (''smbios_entry_32'', c_u64),
     (''smbios_entry_64'', c_u64)])"

definition stivale2_smp_info :: ctype where
  "stivale2_smp_info =
     c_struct [(''processor_id'', c_u32), (''lapic_id'', c_u32), (''target_stack'', c_u64),
     (''goto_address'', c_u64), (''extra_argument'', c_u64)]"

definition stivale2_struct_tag_smp :: "u64 \<times> ctype" where
  "stivale2_struct_tag_smp = (0x34d1d96339647025,
     c_struct [(''tag'', stivale2_tag), (''flags'', c_u64), (''bsp_lapic_id'', c_u32), (''unused'', c_u32),
     (''cpu_count'', c_u64), (''smp_info'', arr stivale2_smp_info 0)])"

definition stivale2_struct_tag_pxe_server_info :: "u64 \<times> ctype" where
  "stivale2_struct_tag_pxe_server_info = (0x29d1e96239247032,
     c_struct [(''tag'', stivale2_tag), (''server_ip'', c_u32)])"

definition stivale2_struct_tag_mmio32_uart :: "u64 \<times> ctype" where
  "stivale2_struct_tag_mmio32_uart = (0xb813f9b8dbc78797,
     c_struct [(''tag'', stivale2_tag), (''addr'', c_u64)])"

definition stivale2_struct_tag_dtb :: "u64 \<times> ctype" where
  "stivale2_struct_tag_dtb = (0xabb29bd49a2833fa,
     c_struct [(''tag'', stivale2_tag), (''addr'', c_u64), (''size'', c_u64)])"

definition stivale2_struct_tag_hhdm :: "u64 \<times> ctype" where
  "stivale2_struct_tag_hhdm = (HHDM_ID,
     c_struct [(''tag'', stivale2_tag), (''addr'', c_u64)])"

text \<open>The types of the memory map, as far as the values go; \<open>pmm_init\<close> wants \<open>USABLE\<close> only.\<close>

datatype mmap_type = USABLE | RESERVED | ACPI_RECLAIMABLE | ACPI_NVS | BAD_MEMORY | BOOTLOADER_RECLAIMABLE
  | KERNEL_AND_MODULES | MMAP_FRAMEBUFFER

fun mmap_code :: "mmap_type \<Rightarrow> u32" where
  "mmap_code USABLE = 1"
| "mmap_code RESERVED = 2"
| "mmap_code ACPI_RECLAIMABLE = 3"
| "mmap_code ACPI_NVS = 4"
| "mmap_code BAD_MEMORY = 5"
| "mmap_code BOOTLOADER_RECLAIMABLE = 0x1000"
| "mmap_code KERNEL_AND_MODULES = 0x1001"
| "mmap_code MMAP_FRAMEBUFFER = 0x1002"

section \<open>Processes, disks and descriptors\<close>

definition c_ProcessState :: ctype where
  "c_ProcessState =
     c_struct [(''r15'', c_u64), (''r14'', c_u64), (''r13'', c_u64), (''r12'', c_u64), (''r11'', c_u64),
     (''r10'', c_u64), (''r9'', c_u64), (''r8'', c_u64), (''rbp'', c_u64), (''rdi'', c_u64),
     (''rsi'', c_u64), (''rdx'', c_u64), (''rcx'', c_u64), (''rbx'', c_u64), (''rax'', c_u64),
     (''intno'', c_u64), (''ec'', c_u64), (''rip'', c_u64), (''cs'', c_u64), (''rflags'', c_u64),
     (''rsp'', c_u64), (''ss'', c_u64)]"

definition c_ELFHeader :: ctype where
  "c_ELFHeader =
     c_struct [(''magic'', arr c_u8 4), (''bits'', c_u8), (''endianness'', c_u8), (''elfhvers'', c_u8),
     (''abi'', c_u8), (''pad'', c_u64), (''type'', c_u16), (''inset'', c_u16), (''elfvers'', c_u32),
     (''entrypos'', c_u64), (''proghpos'', c_u64), (''secthpos'', c_u64), (''flags'', c_u32),
     (''headersize'', c_u16), (''proghentrysize'', c_u16), (''proghentrynum'', c_u16),
     (''secthentrysize'', c_u16), (''secthentrynum'', c_u16), (''sectnameind'', c_u16)]"

definition c_ELFPEntry :: ctype where
  "c_ELFPEntry =
     c_struct [(''type'', c_u32), (''flags'', c_u32), (''offset'', c_u64), (''vaddr'', c_u64), (''paddr'', c_u64),
     (''filesz'', c_u64), (''memsz'', c_u64), (''align'', c_u64)]"

definition c_ELFSEntry :: ctype where
  "c_ELFSEntry =
     c_struct [(''name'', c_u32), (''type'', c_u32), (''flags'', c_u64), (''addr'', c_u64), (''offset'', c_u64),
     (''size'', c_u64), (''link'', c_u32), (''info'', c_u32), (''addralign'', c_u64),
     (''entsize'', c_u64)]"

definition c_BPB :: ctype where
  "c_BPB =
     c_packed [(''first3'', arr c_u8 3), (''OEM'', arr c_u8 8), (''bytespersec'', c_u16), (''secpercl'', c_u8),
     (''ressec'', c_u16), (''FATnum'', c_u8), (''rdirnum'', c_u16), (''totalsec'', c_u16),
     (''mdt'', c_u8), (''reserved'', c_u16), (''secpertr'', c_u16), (''headnum'', c_u16),
     (''hiddensecnum'', c_u32), (''lseccount'', c_u32)]"

definition c_EBR :: ctype where
  "c_EBR =
     c_packed [(''secperFAT'', c_u32), (''flags'', c_u16), (''FATver'', c_u16), (''rootclnum'', c_u32),
     (''FSInfosec'', c_u16), (''backupsec'', c_u16), (''reserved'', c_u64), (''reserved2'', c_u32),
     (''drivenum'', c_u8), (''reserved3'', c_u8), (''signature'', c_u8), (''volumeserial'', c_u32),
     (''volumelabel'', arr c_u8 11), (''sysid'', arr c_u8 8), (''bootcode'', arr c_u8 420),
     (''bootsign'', c_u16)]"

definition c_bootrec :: ctype where
  "c_bootrec =
     c_packed [(''bpb'', c_BPB), (''ebr'', c_EBR)]"

definition c_FSInfo :: ctype where
  "c_FSInfo =
     c_packed [(''signature'', c_u32), (''reserved'', arr c_u8 480), (''signature2'', c_u32),
     (''freeclcount'', c_u32), (''recentcl'', c_u32), (''reserved2'', arr c_u8 12),
     (''signature3'', c_u32)]"

definition c_entr :: ctype where
  "c_entr =
     c_packed [(''name'', arr c_u8 11), (''attr'', c_u8), (''data1'', arr c_u8 8), (''clhigh'', c_u16),
     (''data2'', arr c_u8 4), (''cllow'', c_u16), (''size'', c_u32)]"

definition c_lfne :: ctype where
  "c_lfne =
     c_packed [(''order'', c_u8), (''first5'', arr c_u8 10), (''attr'', c_u8), (''longtype'', c_u8),
     (''checksum'', c_u8), (''next6'', arr c_u8 12), (''zero'', c_u16), (''final2'', arr c_u8 4)]"

definition c_dire :: ctype where
  "c_dire = c_union [(''entr'', c_entr), (''lfne'', c_lfne)]"

definition c_file :: ctype where
  "c_file =
     c_struct [(''bytes'', c_u32), (''attr'', c_u8), (''name'', c_u64)]"

definition c_IDT :: ctype where
  "c_IDT =
     c_packed [(''size'', c_u16), (''address'', c_u64)]"

definition c_IDTDescriptor :: ctype where
  "c_IDTDescriptor =
     c_packed [(''offset_low'', c_u16), (''segment_selector'', c_u16), (''ist'', c_u8), (''type'', c_u8),
     (''offset_mid'', c_u16), (''offset_high'', c_u32), (''reserved'', c_u32)]"

definition c_GDTDesc :: ctype where
  "c_GDTDesc =
     c_struct [(''base'', c_u64), (''limit'', c_u64), (''accessbyte'', c_u16), (''flags'', c_u8)]"

section \<open>The operations read the declared members\<close>

definition member :: "ctype \<Rightarrow> string \<Rightarrow> u64 \<Rightarrow> u64" where
  "member t f a = a + of_nat (offset_of t f)"

definition element :: "ctype \<Rightarrow> u64 \<Rightarrow> u64 \<Rightarrow> u64" where
  "element t a i = a + of_nat (csize t) * i"

lemmas layout_simps = scalar_def arr_def round_up_def max_align_def

lemma lay_out_steps:
  "lay_out p [] = ([], p)"
  "round_up (calign t) p = a \<Longrightarrow> csize t = n \<Longrightarrow> a + n = q \<Longrightarrow> lay_out q fs = (ms, e) \<Longrightarrow>
   lay_out p ((f, t) # fs) = ((f, a, n) # ms, e)"
  by (simp_all add: Let_def)

lemma struct_layout:
  "t = c_struct fs \<Longrightarrow> lay_out 0 fs = (ms, e) \<Longrightarrow> max_align fs = a \<Longrightarrow> round_up a e = n \<Longrightarrow>
   csize t = n \<and> calign t = a \<and> members t = ms"
  by (simp add: c_struct_def)

lemma packed_layout:
  assumes "t = c_packed fs" "lay_out 0 (map (\<lambda>(f, t). (f, t\<lparr>calign := 1\<rparr>)) fs) = (ms, e)"
  shows "csize t = e \<and> calign t = 1 \<and> members t = ms"
proof -
  have "max_align (map (\<lambda>(f, t). (f, t\<lparr>calign := 1\<rparr>)) fs) = 1"
    by (induction fs) (auto simp: max_align_def)
  then show ?thesis
    using struct_layout [OF _ assms(2), of t 1 e] assms(1) by (simp add: c_packed_def)
qed

lemma stivale2_tag_layout:
  "csize stivale2_tag = 16 \<and> calign stivale2_tag = 8 \<and>
     members stivale2_tag = [(''identifier'', 0, 8), (''next'', 8, 8)]"
  by (rule struct_layout, simp add: stivale2_tag_def, (rule lay_out_steps | simp add: layout_simps)+)

lemma stivale2_header_layout:
  "csize stivale2_header = 32 \<and> calign stivale2_header = 8 \<and>
     members stivale2_header = [(''entry_point'', 0, 8), (''stack'', 8, 8), (''flags'', 16, 8), (''tags'', 24, 8)]"
  by (rule struct_layout, simp add: stivale2_header_def, (rule lay_out_steps | simp add: layout_simps)+)

lemma stivale2_header_tag_framebuffer_layout:
  "csize (snd stivale2_header_tag_framebuffer) = 24 \<and> calign (snd stivale2_header_tag_framebuffer) = 8 \<and>
     members (snd stivale2_header_tag_framebuffer) = [(''tag'', 0, 16), (''framebuffer_width'', 16, 2), (''framebuffer_height'', 18, 2),
     (''framebuffer_bpp'', 20, 2), (''unused'', 22, 2)]"
  by (rule struct_layout, simp add: stivale2_header_tag_framebuffer_def, (rule lay_out_steps | simp add: layout_simps stivale2_tag_layout)+)

lemma stivale2_struct_layout:
  "csize stivale2_struct = 136 \<and> calign stivale2_struct = 8 \<and>
     members stivale2_struct = [(''bootloader_brand'', 0, 64), (''bootloader_version'', 64, 64), (''tags'', 128, 8)]"
  by (rule struct_layout, simp add: stivale2_struct_def, (rule lay_out_steps | simp add: layout_simps)+)

lemma stivale2_mmap_entry_layout:
  "csize stivale2_mmap_entry = 24 \<and> calign stivale2_mmap_entry = 8 \<and>
     members stivale2_mmap_entry = [(''base'', 0, 8), (''length'', 8, 8), (''type'', 16, 4), (''unused'', 20, 4)]"
  by (rule struct_layout, simp add: stivale2_mmap_entry_def, (rule lay_out_steps | simp add: layout_simps)+)

lemma stivale2_struct_tag_memmap_layout:
  "csize (snd stivale2_struct_tag_memmap) = 24 \<and> calign (snd stivale2_struct_tag_memmap) = 8 \<and>
     members (snd stivale2_struct_tag_memmap) = [(''tag'', 0, 16), (''entries'', 16, 8), (''memmap'', 24, 0)]"
  by (rule struct_layout, simp add: stivale2_struct_tag_memmap_def, (rule lay_out_steps | simp add: layout_simps stivale2_tag_layout stivale2_mmap_entry_layout)+)

lemma stivale2_struct_tag_hhdm_layout:
  "csize (snd stivale2_struct_tag_hhdm) = 24 \<and> calign (snd stivale2_struct_tag_hhdm) = 8 \<and>
     members (snd stivale2_struct_tag_hhdm) = [(''tag'', 0, 16), (''addr'', 16, 8)]"
  by (rule struct_layout, simp add: stivale2_struct_tag_hhdm_def, (rule lay_out_steps | simp add: layout_simps stivale2_tag_layout)+)

lemma stivale2_struct_tag_framebuffer_layout:
  "csize (snd stivale2_struct_tag_framebuffer) = 40 \<and> calign (snd stivale2_struct_tag_framebuffer) = 8 \<and>
     members (snd stivale2_struct_tag_framebuffer) = [(''tag'', 0, 16), (''framebuffer_addr'', 16, 8), (''framebuffer_width'', 24, 2),
     (''framebuffer_height'', 26, 2), (''framebuffer_pitch'', 28, 2), (''framebuffer_bpp'', 30, 2),
     (''memory_model'', 32, 1), (''red_mask_size'', 33, 1), (''red_mask_shift'', 34, 1),
     (''green_mask_size'', 35, 1), (''green_mask_shift'', 36, 1), (''blue_mask_size'', 37, 1),
     (''blue_mask_shift'', 38, 1), (''unused'', 39, 1)]"
  by (rule struct_layout, simp add: stivale2_struct_tag_framebuffer_def, (rule lay_out_steps | simp add: layout_simps stivale2_tag_layout)+)

lemma stivale2_module_layout:
  "csize stivale2_module = 144 \<and> calign stivale2_module = 8 \<and>
     members stivale2_module = [(''begin'', 0, 8), (''end'', 8, 8), (''string'', 16, 128)]"
  by (rule struct_layout, simp add: stivale2_module_def, (rule lay_out_steps | simp add: layout_simps)+)

lemma stivale2_struct_tag_modules_layout:
  "csize (snd stivale2_struct_tag_modules) = 24 \<and> calign (snd stivale2_struct_tag_modules) = 8 \<and>
     members (snd stivale2_struct_tag_modules) = [(''tag'', 0, 16), (''module_count'', 16, 8), (''modules'', 24, 0)]"
  by (rule struct_layout, simp add: stivale2_struct_tag_modules_def, (rule lay_out_steps | simp add: layout_simps stivale2_tag_layout stivale2_module_layout)+)

lemma c_ProcessState_layout:
  "csize c_ProcessState = 176 \<and> calign c_ProcessState = 8 \<and>
     members c_ProcessState = [(''r15'', 0, 8), (''r14'', 8, 8), (''r13'', 16, 8), (''r12'', 24, 8), (''r11'', 32, 8),
     (''r10'', 40, 8), (''r9'', 48, 8), (''r8'', 56, 8), (''rbp'', 64, 8), (''rdi'', 72, 8),
     (''rsi'', 80, 8), (''rdx'', 88, 8), (''rcx'', 96, 8), (''rbx'', 104, 8), (''rax'', 112, 8),
     (''intno'', 120, 8), (''ec'', 128, 8), (''rip'', 136, 8), (''cs'', 144, 8), (''rflags'', 152, 8),
     (''rsp'', 160, 8), (''ss'', 168, 8)]"
  by (rule struct_layout, simp add: c_ProcessState_def, (rule lay_out_steps | simp add: layout_simps)+)

lemma c_ELFHeader_layout:
  "csize c_ELFHeader = 64 \<and> calign c_ELFHeader = 8 \<and>
     members c_ELFHeader = [(''magic'', 0, 4), (''bits'', 4, 1), (''endianness'', 5, 1), (''elfhvers'', 6, 1), (''abi'', 7, 1),
     (''pad'', 8, 8), (''type'', 16, 2), (''inset'', 18, 2), (''elfvers'', 20, 4), (''entrypos'', 24, 8),
     (''proghpos'', 32, 8), (''secthpos'', 40, 8), (''flags'', 48, 4), (''headersize'', 52, 2),
     (''proghentrysize'', 54, 2), (''proghentrynum'', 56, 2), (''secthentrysize'', 58, 2),
     (''secthentrynum'', 60, 2), (''sectnameind'', 62, 2)]"
  by (rule struct_layout, simp add: c_ELFHeader_def, (rule lay_out_steps | simp add: layout_simps)+)

lemma c_ELFPEntry_layout:
  "csize c_ELFPEntry = 56 \<and> calign c_ELFPEntry = 8 \<and>
     members c_ELFPEntry = [(''type'', 0, 4), (''flags'', 4, 4), (''offset'', 8, 8), (''vaddr'', 16, 8), (''paddr'', 24, 8),
     (''filesz'', 32, 8), (''memsz'', 40, 8), (''align'', 48, 8)]"
  by (rule struct_layout, simp add: c_ELFPEntry_def, (rule lay_out_steps | simp add: layout_simps)+)

text \<open>The offsets are those of the comments in \<open>fat32.h\<close>, which count on through the two records.\<close>

lemma c_BPB_layout:
  "csize c_BPB = 36 \<and> calign c_BPB = 1 \<and>
     members c_BPB = [(''first3'', 0, 3), (''OEM'', 3, 8), (''bytespersec'', 11, 2), (''secpercl'', 13, 1),
     (''ressec'', 14, 2), (''FATnum'', 16, 1), (''rdirnum'', 17, 2), (''totalsec'', 19, 2), (''mdt'', 21, 1),
     (''reserved'', 22, 2), (''secpertr'', 24, 2), (''headnum'', 26, 2), (''hiddensecnum'', 28, 4),
     (''lseccount'', 32, 4)]"
  by (rule packed_layout, simp add: c_BPB_def, simp only: list.map prod.case,
      (rule lay_out_steps | simp add: layout_simps)+)

lemma c_EBR_layout:
  "csize c_EBR = 476 \<and> calign c_EBR = 1 \<and>
     members c_EBR = [(''secperFAT'', 0, 4), (''flags'', 4, 2), (''FATver'', 6, 2), (''rootclnum'', 8, 4),
     (''FSInfosec'', 12, 2), (''backupsec'', 14, 2), (''reserved'', 16, 8), (''reserved2'', 24, 4),
     (''drivenum'', 28, 1), (''reserved3'', 29, 1), (''signature'', 30, 1), (''volumeserial'', 31, 4),
     (''volumelabel'', 35, 11), (''sysid'', 46, 8), (''bootcode'', 54, 420), (''bootsign'', 474, 2)]"
  by (rule packed_layout, simp add: c_EBR_def, simp only: list.map prod.case,
      (rule lay_out_steps | simp add: layout_simps)+)

lemma c_bootrec_layout:
  "csize c_bootrec = 512 \<and> calign c_bootrec = 1 \<and>
     members c_bootrec = [(''bpb'', 0, 36), (''ebr'', 36, 476)]"
  by (rule packed_layout, simp add: c_bootrec_def, simp only: list.map prod.case,
      (rule lay_out_steps | simp add: layout_simps c_BPB_layout c_EBR_layout)+)

lemma c_FSInfo_layout:
  "csize c_FSInfo = 512 \<and> calign c_FSInfo = 1 \<and>
     members c_FSInfo = [(''signature'', 0, 4), (''reserved'', 4, 480), (''signature2'', 484, 4), (''freeclcount'', 488, 4),
     (''recentcl'', 492, 4), (''reserved2'', 496, 12), (''signature3'', 508, 4)]"
  by (rule packed_layout, simp add: c_FSInfo_def, simp only: list.map prod.case,
      (rule lay_out_steps | simp add: layout_simps)+)

lemma c_entr_layout:
  "csize c_entr = 32 \<and> calign c_entr = 1 \<and>
     members c_entr = [(''name'', 0, 11), (''attr'', 11, 1), (''data1'', 12, 8), (''clhigh'', 20, 2), (''data2'', 22, 4),
     (''cllow'', 26, 2), (''size'', 28, 4)]"
  by (rule packed_layout, simp add: c_entr_def, simp only: list.map prod.case,
      (rule lay_out_steps | simp add: layout_simps)+)

lemma c_lfne_layout:
  "csize c_lfne = 32 \<and> calign c_lfne = 1 \<and>
     members c_lfne = [(''order'', 0, 1), (''first5'', 1, 10), (''attr'', 11, 1), (''longtype'', 12, 1), (''checksum'', 13, 1),
     (''next6'', 14, 12), (''zero'', 26, 2), (''final2'', 28, 4)]"
  by (rule packed_layout, simp add: c_lfne_def, simp only: list.map prod.case,
      (rule lay_out_steps | simp add: layout_simps)+)

lemma c_dire_layout:
  "csize c_dire = 32 \<and> calign c_dire = 1 \<and>
     members c_dire = [(''entr'', 0, 32), (''lfne'', 0, 32)]"
  by (simp add: c_dire_def c_union_def max_align_def round_up_def c_entr_layout c_lfne_layout)

lemma c_IDT_layout:
  "csize c_IDT = 10 \<and> calign c_IDT = 1 \<and>
     members c_IDT = [(''size'', 0, 2), (''address'', 2, 8)]"
  by (rule packed_layout, simp add: c_IDT_def, simp only: list.map prod.case,
      (rule lay_out_steps | simp add: layout_simps)+)

lemma c_IDTDescriptor_layout:
  "csize c_IDTDescriptor = 16 \<and> calign c_IDTDescriptor = 1 \<and>
     members c_IDTDescriptor = [(''offset_low'', 0, 2), (''segment_selector'', 2, 2), (''ist'', 4, 1), (''type'', 5, 1),
     (''offset_mid'', 6, 2), (''offset_high'', 8, 4), (''reserved'', 12, 4)]"
  by (rule packed_layout, simp add: c_IDTDescriptor_def, simp only: list.map prod.case,
      (rule lay_out_steps | simp add: layout_simps)+)

lemma boot_members:
  "member stivale2_tag ''identifier'' a = a" "member stivale2_tag ''next'' a = a + 8" "member stivale2_struct ''tags'' a = a + 128"
  "member (snd stivale2_struct_tag_memmap) ''entries'' a = a + 16" "member (snd stivale2_struct_tag_memmap) ''memmap'' a = a + 24"
  "element stivale2_mmap_entry a i = a + 24 * i" "member stivale2_mmap_entry ''base'' a = a"
  "member stivale2_mmap_entry ''length'' a = a + 8" "member stivale2_mmap_entry ''type'' a = a + 16"
  "member (snd stivale2_struct_tag_hhdm) ''addr'' a = a + 16"
  "member (snd stivale2_struct_tag_framebuffer) ''framebuffer_addr'' a = a + 16"
  "member (snd stivale2_struct_tag_framebuffer) ''framebuffer_width'' a = a + 24"
  "member (snd stivale2_struct_tag_framebuffer) ''framebuffer_height'' a = a + 26"
  "member (snd stivale2_struct_tag_framebuffer) ''framebuffer_pitch'' a = a + 28"
  "member (snd stivale2_struct_tag_modules) ''modules'' a = a + 24" "element stivale2_module a i = a + 144 * i"
  "member stivale2_module ''begin'' a = a" "member stivale2_module ''end'' a = a + 8"
  by (simp_all add: member_def element_def offset_of_def stivale2_tag_layout stivale2_struct_layout
      stivale2_struct_tag_memmap_layout stivale2_mmap_entry_layout stivale2_struct_tag_hhdm_layout
      stivale2_struct_tag_framebuffer_layout stivale2_struct_tag_modules_layout stivale2_module_layout)

lemma elf_members:
  "member c_ELFHeader ''magic'' a = a" "member c_ELFHeader ''bits'' a = a + 4" "member c_ELFHeader ''endianness'' a = a + 5"
  "member c_ELFHeader ''type'' a = a + 16" "member c_ELFHeader ''inset'' a = a + 18" "member c_ELFHeader ''entrypos'' a = a + 24"
  "member c_ELFHeader ''proghpos'' a = a + 32" "member c_ELFHeader ''proghentrynum'' a = a + 56"
  "member c_ELFPEntry ''type'' a = a" "member c_ELFPEntry ''offset'' a = a + 8" "member c_ELFPEntry ''vaddr'' a = a + 16"
  "member c_ELFPEntry ''filesz'' a = a + 32" "member c_ELFPEntry ''memsz'' a = a + 40" "element c_ELFPEntry a i = a + 56 * i"
  "member c_ProcessState ''rbp'' a = a + 64" "member c_ProcessState ''rip'' a = a + 136"
  "member c_ProcessState ''rsp'' a = a + 160"
  by (simp_all add: member_def element_def offset_of_def c_ELFHeader_layout c_ELFPEntry_layout c_ProcessState_layout)

lemma disk_members:
  "member c_bootrec ''bpb'' a = a" "member c_bootrec ''ebr'' a = a + 36"
  "member c_BPB ''secpercl'' a = a + 13" "member c_BPB ''ressec'' a = a + 14" "member c_EBR ''secperFAT'' a = a"
  "member c_EBR ''rootclnum'' a = a + 8" "member c_EBR ''FSInfosec'' a = a + 12" "member c_EBR ''volumelabel'' a = a + 35"
  "member c_entr ''name'' a = a" "member c_entr ''attr'' a = a + 11" "member c_entr ''clhigh'' a = a + 20"
  "member c_entr ''cllow'' a = a + 26" "element c_dire a i = a + 32 * i"
  by (simp_all add: member_def element_def offset_of_def c_bootrec_layout c_BPB_layout c_EBR_layout c_entr_layout c_dire_layout)

text \<open>
  Some of the constant offsets of the other theories, as places of members: the search of the tag list, the
  memory map, the screen, the two checks and the program headers of an ELF file, the boot record and the
  directory entries. The entry point and the place of the program headers of a file, the saved registers, the modules and
  higher-half tags and the volume label are given by the layouts above.
\<close>

lemma readers_follow_declarations:
  "stivale2_get_tag s a ident = get_tag_loop s ident (load64 s (member stivale2_struct ''tags'' a)) \<and>
   get_tag_loop s ident a = (if a = 0 then Some 0
     else if load64 s (member stivale2_tag ''identifier'' a) = ident then Some a
     else get_tag_loop s ident (load64 s (member stivale2_tag ''next'' a))) \<and>
   memmap_entries s a = load64 s (member (snd stivale2_struct_tag_memmap) ''entries'' a) \<and>
   memmap_at s a i = (let e = element stivale2_mmap_entry (member (snd stivale2_struct_tag_memmap) ''memmap'' a) i
     in \<lparr>me_base = load64 s (member stivale2_mmap_entry ''base'' e), me_length = load64 s (member stivale2_mmap_entry ''length'' e),
        me_type = load32 s (member stivale2_mmap_entry ''type'' e)\<rparr>) \<and>
   fb_addr (init_screen a s) = load64 s (member (snd stivale2_struct_tag_framebuffer) ''framebuffer_addr'' a) \<and>
   fb_width (init_screen a s) = load16 s (member (snd stivale2_struct_tag_framebuffer) ''framebuffer_width'' a) \<and>
   fb_height (init_screen a s) = load16 s (member (snd stivale2_struct_tag_framebuffer) ''framebuffer_height'' a) \<and>
   fb_pitch (init_screen a s) = load16 s (member (snd stivale2_struct_tag_framebuffer) ''framebuffer_pitch'' a) \<and>
   elf_check s a bytes =
     (if bytes \<le> 120 then 1 else if load8 s (member c_ELFHeader ''magic'' a) \<noteq> 0x7F then 2
      else if load16 s (member c_ELFHeader ''inset'' a) \<noteq> 0x3E then 3 else if load8 s (member c_ELFHeader ''bits'' a) \<noteq> 2 then 4
      else if load8 s (member c_ELFHeader ''endianness'' a) \<noteq> 1 then 5
      else if load16 s (member c_ELFHeader ''type'' a) \<noteq> 2 then 6 else 0) \<and>
   ph_type s a n = load32 s (member c_ELFPEntry ''type'' (element c_ELFPEntry a (of_nat n))) \<and>
   ph_offset s a n = load64 s (member c_ELFPEntry ''offset'' (element c_ELFPEntry a (of_nat n))) \<and>
   ph_vaddr s a n = load64 s (member c_ELFPEntry ''vaddr'' (element c_ELFPEntry a (of_nat n))) \<and>
   ph_filesz s a n = load64 s (member c_ELFPEntry ''filesz'' (element c_ELFPEntry a (of_nat n))) \<and>
   ph_memsz s a n = load64 s (member c_ELFPEntry ''memsz'' (element c_ELFPEntry a (of_nat n))) \<and>
   bpb_secpercl d = load8 d (member c_BPB ''secpercl'' (member c_bootrec ''bpb'' (BRec d))) \<and>
   bpb_ressec d = load16 d (member c_BPB ''ressec'' (member c_bootrec ''bpb'' (BRec d))) \<and>
   ebr_secperFAT d = load32 d (member c_EBR ''secperFAT'' (member c_bootrec ''ebr'' (BRec d))) \<and>
   ebr_rootclnum d = load32 d (member c_EBR ''rootclnum'' (member c_bootrec ''ebr'' (BRec d))) \<and>
   ebr_FSInfosec d = load16 d (member c_EBR ''FSInfosec'' (member c_bootrec ''ebr'' (BRec d))) \<and>
   entry_attr s a = load8 s (member c_entr ''attr'' a) \<and>
   entry_cluster s a = push_bit 16 (ucast (load16 s (member c_entr ''clhigh'' a))) OR ucast (load16 s (member c_entr ''cllow'' a))"
  unfolding boot_members elf_members disk_members
  by (intro conjI; (rule get_tag_loop.simps)?)
    (simp_all add: stivale2_get_tag_def memmap_entries_def memmap_at_def init_screen_def elf_check_def ph_type_def
      ph_offset_def ph_vaddr_def ph_filesz_def ph_memsz_def ph_entry_def bpb_secpercl_def bpb_ressec_def ebr_secperFAT_def
      ebr_rootclnum_def ebr_FSInfosec_def entry_attr_def entry_cluster_def Let_def add.assoc)

section \<open>The tags are told apart by their identifiers\<close>

definition boot_tag_ids :: "u64 list" where
  "boot_tag_ids = map fst [stivale2_struct_tag_pmrs, stivale2_struct_tag_kernel_base_address, stivale2_struct_tag_cmdline,
     stivale2_struct_tag_memmap, stivale2_struct_tag_framebuffer, stivale2_struct_tag_edid,
     stivale2_struct_tag_textmode, stivale2_struct_tag_terminal, stivale2_struct_tag_modules,
     stivale2_struct_tag_rsdp, stivale2_struct_tag_epoch, stivale2_struct_tag_firmware,
     stivale2_struct_tag_efi_system_table, stivale2_struct_tag_kernel_file,
     stivale2_struct_tag_kernel_file_v2, stivale2_struct_tag_boot_volume,
     stivale2_struct_tag_kernel_slide, stivale2_struct_tag_smbios, stivale2_struct_tag_smp,
     stivale2_struct_tag_pxe_server_info, stivale2_struct_tag_mmio32_uart, stivale2_struct_tag_dtb,
     stivale2_struct_tag_hhdm]"

lemma boot_tag_ids_distinct: "distinct boot_tag_ids"
  by (simp add: boot_tag_ids_def stivale2_struct_tag_pmrs_def stivale2_struct_tag_kernel_base_address_def
     stivale2_struct_tag_cmdline_def stivale2_struct_tag_memmap_def stivale2_struct_tag_framebuffer_def
     stivale2_struct_tag_edid_def stivale2_struct_tag_textmode_def stivale2_struct_tag_terminal_def
     stivale2_struct_tag_modules_def stivale2_struct_tag_rsdp_def stivale2_struct_tag_epoch_def
     stivale2_struct_tag_firmware_def stivale2_struct_tag_efi_system_table_def
     stivale2_struct_tag_kernel_file_def stivale2_struct_tag_kernel_file_v2_def
     stivale2_struct_tag_boot_volume_def stivale2_struct_tag_kernel_slide_def
     stivale2_struct_tag_smbios_def stivale2_struct_tag_smp_def stivale2_struct_tag_pxe_server_info_def
     stivale2_struct_tag_mmio32_uart_def stivale2_struct_tag_dtb_def stivale2_struct_tag_hhdm_def MEMMAP_ID_def HHDM_ID_def MODULES_ID_def FRAMEBUFFER_ID_def)

lemma mmap_code_inj: "mmap_code x = mmap_code y \<Longrightarrow> x = y"
  by (cases x; cases y) simp_all

section \<open>Initialised structures\<close>

text \<open>
  A static structure in memory at \<open>a\<close>: each member as the little-endian bytes of its initialiser, 0 for
  a member without one.
\<close>

fun put_members :: "xlation \<Rightarrow> u64 \<Rightarrow> (string \<times> nat \<times> nat) list \<Rightarrow> (string \<Rightarrow> u64) \<Rightarrow> memory \<Rightarrow> memory" where
  "put_members tr a [] vals m = m"
| "put_members tr a ((f, p, n) # ms) vals m =
     put_members tr a ms vals (st_bytes tr m (a + of_nat p) (le_bytes n (vals f)))"

definition init_struct :: "xlation \<Rightarrow> ctype \<Rightarrow> (string \<Rightarrow> u64) \<Rightarrow> u64 \<Rightarrow> memory \<Rightarrow> memory" where
  "init_struct tr t vals a m = put_members tr a (members t) vals m"

definition read_member :: "xlation \<Rightarrow> memory \<Rightarrow> ctype \<Rightarrow> string \<Rightarrow> u64 \<Rightarrow> u64" where
  "read_member tr m t f a = le_word (ld_bytes tr m (member t f a) (size_of_member t f))"

text \<open>Members one after the other from \<open>p\<close> on, inside \<open>e\<close> bytes.\<close>

fun in_order :: "nat \<Rightarrow> (string \<times> nat \<times> nat) list \<Rightarrow> nat \<Rightarrow> bool" where
  "in_order p [] e \<longleftrightarrow> p \<le> e"
| "in_order p ((f, q, n) # ms) e \<longleftrightarrow> p \<le> q \<and> in_order (q + n) ms e"

lemma in_order_le: "in_order p ms e \<Longrightarrow> p \<le> e"
  by (induction p ms e rule: in_order.induct) auto

lemma in_order_grow: "in_order p ms e \<Longrightarrow> e \<le> e' \<Longrightarrow> in_order p ms e'"
  by (induction p ms e rule: in_order.induct) auto

lemma foldr_max_pos: "0 < foldr (\<lambda>(f, t) a. max (calign t) a) fs (1 :: nat)"
  by (induction fs) auto

lemma lay_out_in_order:
  "\<forall>(f, t)\<in>set fs. 0 < calign t \<Longrightarrow> lay_out p fs = (ms, e) \<Longrightarrow> in_order p ms e"
proof (induction fs arbitrary: p ms)
  case (Cons ft fs)
  then show ?case
    using round_up(1) by (cases ft) (auto simp: Let_def split: prod.splits)
qed simp

text \<open>The layout rules give members in order, whatever the declaration.\<close>

lemma c_struct_in_order:
  assumes "\<forall>(f, t)\<in>set fs. 0 < calign t"
  shows "in_order 0 (members (c_struct fs)) (csize (c_struct fs))"
proof -
  obtain ms e where l: "lay_out 0 fs = (ms, e)" by (cases "lay_out 0 fs")
  have "0 < max_align fs" using foldr_max_pos by (simp add: max_align_def)
  then have "e \<le> round_up (max_align fs) e" by (rule round_up)
  then show ?thesis
    using in_order_grow [OF lay_out_in_order [OF assms l]] by (simp add: c_struct_def l)
qed

lemma put_members_other:
  "in_order p ms e \<Longrightarrow> x \<notin> foot tr (a + of_nat p) (e - p) \<Longrightarrow> put_members tr a ms vals m x = m x"
proof (induction p ms e arbitrary: m rule: in_order.induct)
  case (2 p f q n ms e)
  have le: "p \<le> q" "q + n \<le> e" using "2.prems"(1) in_order_le by auto
  have sub: "foot tr (a + of_nat j) k \<subseteq> foot tr (a + of_nat p) (e - p)" if "p \<le> j" "j + k \<le> e" for j k
    using foot_shift [of "j - p" k "e - p" tr "a + of_nat p"] that by (simp add: add.assoc flip: of_nat_add)
  have "x \<notin> foot tr (a + of_nat (q + n)) (e - (q + n))" "x \<notin> foot tr (a + of_nat q) n"
    using "2.prems"(2) le sub [of "q + n" "e - (q + n)"] sub [of q n] by auto
  then show ?case
    using "2.IH" "2.prems"(1) by (simp add: st_bytes_other)
qed simp

lemma put_members_at:
  "in_order p ms e \<Longrightarrow> (f, q, n) \<in> set ms \<Longrightarrow> inj_at tr a e \<Longrightarrow>
    ld_bytes tr (put_members tr a ms vals m) (a + of_nat q) n = le_bytes n (vals f)"
proof (induction p ms e arbitrary: m rule: in_order.induct)
  case (2 p g r k ms e)
  show ?case
  proof (cases "(f, q, n) \<in> set ms")
    case True
    then show ?thesis using 2 by simp
  next
    case False
    then have eq: "f = g" "q = r" "n = k" using "2.prems"(2) by auto
    have order: "in_order (r + k) ms e" "r + k \<le> e" using "2.prems"(1) in_order_le by auto
    let ?m = "st_bytes tr m (a + of_nat r) (le_bytes k (vals g))"
    have inj: "inj_at tr (a + of_nat r) k" by (rule inj_at_shift [OF "2.prems"(3) order(2)])
    have "ld_bytes tr (put_members tr a ms vals ?m) (a + of_nat r) k = ld_bytes tr ?m (a + of_nat r) k"
    proof (rule ld_bytes_cong)
      fix x
      assume "x \<in> foot tr (a + of_nat r) k"
      then have "x \<notin> foot tr (a + of_nat (r + k)) (e - (r + k))"
        using foot_apart [OF "2.prems"(3), of r k "r + k" "e - (r + k)"] order(2) by auto
      then show "put_members tr a ms vals ?m x = ?m x" by (rule put_members_other [OF order(1)])
    qed
    also have "\<dots> = le_bytes k (vals g)"
      using ld_bytes_st_bytes [of tr "a + of_nat r" "le_bytes k (vals g)" m] inj by simp
    finally show ?thesis by (simp add: eq)
  qed
qed simp

lemma le_word_take: "le_word (le_bytes n (w :: u64)) = take_bit (8 * n) w"
proof (rule bit_word_eqI)
  fix i
  assume "i < LENGTH(64)"
  moreover have "i div 8 < n \<longleftrightarrow> i < 8 * n" by auto
  ultimately show "bit (le_word (le_bytes n w) :: u64) i = bit (take_bit (8 * n) w) i"
    by (auto simp: bit_le_word bit_le_bytes bit_take_bit_iff)
qed

lemma take_64 [simp]: "take_bit 64 (w :: u64) = w"
  by (rule take_bit_word_eq_self) simp

text \<open>Every member of an initialised structure reads back as its initialiser, cut to the member's width.\<close>

lemma init_struct_reads:
  assumes "in_order 0 (members t) (csize t)" "inj_at tr a (csize t)" "map_of (members t) f = Some (q, n)"
  shows "read_member tr (init_struct tr t vals a m) t f a = take_bit (8 * n) (vals f)"
proof -
  have "(f, q, n) \<in> set (members t)" using assms(3) by (rule map_of_SomeD)
  from put_members_at [OF assms(1) this assms(2)] show ?thesis
    using assms(3) by (simp add: read_member_def init_struct_def member_def offset_of_def size_of_member_def le_word_take)
qed

lemma init_struct_other:
  "in_order 0 (members t) (csize t) \<Longrightarrow> x \<notin> foot tr a (csize t) \<Longrightarrow> init_struct tr t vals a m x = m x"
  using put_members_other [of 0 "members t" "csize t" x tr a vals m] by (simp add: init_struct_def)

lemma read_member_cong:
  "(\<And>x. x \<in> foot tr (member t f a) (size_of_member t f) \<Longrightarrow> m x = m' x) \<Longrightarrow> read_member tr m t f a = read_member tr m' t f a"
  unfolding read_member_def by (metis ld_bytes_cong)

lemma load_member: "size_of_member t f = 8 \<Longrightarrow> load64 s (member t f a) = read_member (vtr s) (mem s) t f a"
  by (simp add: read_member_def ld64_def)

section \<open>The header for the boot loader\<close>

definition framebuffer_hdr_tag :: "xlation \<Rightarrow> u64 \<Rightarrow> memory \<Rightarrow> memory" where
  "framebuffer_hdr_tag tr a m =
     init_struct tr stivale2_tag (\<lambda>f. if f = ''identifier'' then fst stivale2_header_tag_framebuffer else 0)
       (member (snd stivale2_header_tag_framebuffer) ''tag'' a)
       (init_struct tr (snd stivale2_header_tag_framebuffer) (\<lambda>_. 0) a m)"

text \<open>The stack is 8192 bytes at \<open>stack\<close>; the tags start with \<open>framebuffer_hdr_tag\<close>, at \<open>tag\<close>.\<close>

definition stivale_hdr :: "xlation \<Rightarrow> u64 \<Rightarrow> u64 \<Rightarrow> u64 \<Rightarrow> memory \<Rightarrow> memory" where
  "stivale_hdr tr stack tag a m =
     init_struct tr stivale2_header
       (\<lambda>f. if f = ''stack'' then stack + 8192
            else if f = ''flags'' then push_bit 1 1 OR push_bit 2 1 OR push_bit 3 1 OR push_bit 4 1
            else if f = ''tags'' then tag else 0) a m"

text \<open>
  C38. What the boot loader reads in the kernel image, with the header at \<open>h\<close> and the tag at \<open>a\<close> in bytes of
  their own: the entry point 0 (that of the ELF file), the top of the kernel's stack, flags 1 to 4,
  and a list of one tag, found by its identifier, which asks for no particular resolution.
\<close>

theorem boot_header_reads_back:
  assumes "inj_at (vtr s) h 32" "inj_at (vtr s) a 24" "foot (vtr s) h 32 \<inter> foot (vtr s) a 24 = {}" "a \<noteq> 0"
    and m: "mem s = stivale_hdr (vtr s) stack a h (framebuffer_hdr_tag (vtr s) a m)"
  shows "load64 s (member stivale2_header ''entry_point'' h) = 0 \<and>
    load64 s (member stivale2_header ''stack'' h) = stack + 8192 \<and> load64 s (member stivale2_header ''flags'' h) = 0x1E \<and>
    get_tag_loop s (fst stivale2_header_tag_framebuffer) (load64 s (member stivale2_header ''tags'' h)) = Some a \<and>
    load64 s (member stivale2_tag ''next'' a) = 0 \<and>
    read_member (vtr s) (mem s) (snd stivale2_header_tag_framebuffer) ''framebuffer_width'' a = 0"
proof -
  let ?tr = "vtr s"
  let ?m1 = "init_struct ?tr (snd stivale2_header_tag_framebuffer) (\<lambda>_. 0) a m"
  let ?m2 = "framebuffer_hdr_tag ?tr a m"
  have order: "in_order 0 (members stivale2_header) 32" "in_order 0 (members stivale2_tag) 16"
    "in_order 0 (members (snd stivale2_header_tag_framebuffer)) 24"
    by (simp_all add: stivale2_header_layout stivale2_tag_layout stivale2_header_tag_framebuffer_layout)
  note layouts = stivale2_header_layout stivale2_tag_layout stivale2_header_tag_framebuffer_layout
  have head: "load64 s (member stivale2_header f h) = (if f = ''stack'' then stack + 8192
      else if f = ''flags'' then push_bit 1 1 OR push_bit 2 1 OR push_bit 3 1 OR push_bit 4 1
      else if f = ''tags'' then a else 0)"
    if "map_of (members stivale2_header) f = Some (q, 8)" for f q
    using init_struct_reads [OF _ _ that, of ?tr h] order(1) assms(1) that
    by (subst load_member) (simp_all add: size_of_member_def m stivale_hdr_def layouts(1))
  have outside: "mem s x = ?m2 x" if "x \<in> foot ?tr a 24" for x
    using that assms(3) order(1) unfolding m stivale_hdr_def by (intro init_struct_other) (auto simp: layouts(1))
  have inside: "foot ?tr (a + of_nat q) n \<subseteq> foot ?tr a 24" if "q + n \<le> 24" for q n
    using that by (rule foot_shift)
  have tag: "load64 s (member stivale2_tag f a) = (if f = ''identifier'' then fst stivale2_header_tag_framebuffer else 0)"
    if f: "map_of (members stivale2_tag) f = Some (q, 8)" "q + 8 \<le> 16" for f q
  proof -
    have "load64 s (member stivale2_tag f a) = read_member ?tr ?m2 stivale2_tag f a"
      using f inside [of q 8] outside
      by (subst load_member) (auto simp: size_of_member_def member_def offset_of_def intro!: read_member_cong)
    also have "\<dots> = take_bit 64 (if f = ''identifier'' then fst stivale2_header_tag_framebuffer else 0)"
      using init_struct_reads [OF _ _ f(1), of ?tr a] order(2) inj_at_mono [OF _ assms(2), of 16]
      by (simp add: framebuffer_hdr_tag_def member_def offset_of_def layouts(2,3))
    finally show ?thesis by simp
  qed
  have "read_member ?tr (mem s) (snd stivale2_header_tag_framebuffer) ''framebuffer_width'' a =
      read_member ?tr ?m1 (snd stivale2_header_tag_framebuffer) ''framebuffer_width'' a"
  proof (rule read_member_cong)
    fix x
    assume "x \<in> foot ?tr (member (snd stivale2_header_tag_framebuffer) ''framebuffer_width'' a)
      (size_of_member (snd stivale2_header_tag_framebuffer) ''framebuffer_width'')"
    then have x: "x \<in> foot ?tr (a + of_nat 16) 2"
      by (simp add: member_def offset_of_def size_of_member_def layouts(3))
    then have "x \<notin> foot ?tr (a + of_nat 0) 16"
      using foot_apart [OF assms(2), of 16 2 0 16] by auto
    then have "?m2 x = ?m1 x"
      unfolding framebuffer_hdr_tag_def using order(2)
      by (intro init_struct_other) (simp_all add: member_def offset_of_def layouts(2,3))
    then show "mem s x = ?m1 x" using outside x inside [of 16 2] by auto
  qed
  also have "\<dots> = 0"
    using init_struct_reads [OF _ _ , of "snd stivale2_header_tag_framebuffer" ?tr a "''framebuffer_width''" 16 2] order(3) assms(2)
    by (simp add: layouts(3))
  finally have width: "read_member ?tr (mem s) (snd stivale2_header_tag_framebuffer) ''framebuffer_width'' a = 0" .
  have "get_tag_loop s (fst stivale2_header_tag_framebuffer) a = Some a"
    using tag [of "''identifier''" 0] assms(4)
    by (subst get_tag_loop.simps) (simp add: layouts(2) member_def offset_of_def)
  then show ?thesis
    using head [of "''entry_point''" 0] head [of "''stack''" 8] head [of "''flags''" 16] head [of "''tags''" 24]
      tag [of "''next''" 8] width by (simp add: layouts)
qed

theorem boot_header_reads_back_witness:
  "\<exists>s :: vga. load64 s (member stivale2_header ''flags'' 0x1000) = 0x1E \<and>
     get_tag_loop s (fst stivale2_header_tag_framebuffer) (load64 s (member stivale2_header ''tags'' 0x1000)) = Some 0x2000"
proof -
  define s where "s = vga_sample\<lparr>xlat := (\<lambda>_ a. a),
    mem := stivale_hdr (\<lambda>a. a) 0x8000 0x2000 0x1000 (framebuffer_hdr_tag (\<lambda>a. a) 0x2000 (\<lambda>_. 0xFF))\<rparr>"
  have s: "vtr s = (\<lambda>a. a)"
    "mem s = stivale_hdr (vtr s) 0x8000 0x2000 0x1000 (framebuffer_hdr_tag (vtr s) 0x2000 (\<lambda>_. 0xFF))"
    by (simp_all add: s_def)
  have "inj_at (vtr s) 0x1000 32" "inj_at (vtr s) 0x2000 24" "foot (vtr s) 0x1000 32 \<inter> foot (vtr s) 0x2000 24 = {}"
    by (auto simp: s(1) inj_at_id foot_id)
  from boot_header_reads_back [OF this _ s(2)] show ?thesis by auto
qed

end
