(* ===== verification/Directory.thy ===== *)
theory Directory
  imports Fat32
begin

text \<open>
  What the directory search of \<open>disk/fat32.c\<close> computes, as a function of the volume's bytes: a
  directory is the list of its 32-byte entries, a path the bytes of the string, and a lookup goes from
  one directory to the next. \<open>locateFileCl\<close> is shown to compute this function.
\<close>

section \<open>Lookup in a volume\<close>


definition dirent_cluster :: "u8 list \<Rightarrow> u32" where
  "dirent_cluster e = push_bit 16 (ucast (le_word (take 2 (drop 20 e)) :: u16)) OR ucast (le_word (take 2 (drop 26 e)) :: u16)"

text \<open>
  The comparison of names: not with a long-name entry, and with a C string, so that a name of eleven
  characters has to be followed by a zero in the attribute byte.
\<close>

definition dirent_matches :: "u8 list \<Rightarrow> u8 list \<Rightarrow> bool" where
  "dirent_matches name e \<longleftrightarrow> e ! 11 \<noteq> 0x0F \<and> take (Suc (length name)) e = name @ [0]"

definition component_name :: "u8 list \<Rightarrow> nat \<Rightarrow> u8 list" where
  "component_name path off = takeWhile (\<lambda>b. b \<noteq> 0) (take 11 (drop off path))"

text \<open>
  The lookup, through at most as many directories as its first argument says. A cluster outside the
  volume has no entries; the search then stops the machine.
\<close>

fun dir_walk :: "nat \<Rightarrow> (u32 \<Rightarrow> u8 list list option) \<Rightarrow> u8 list \<Rightarrow> u32 \<Rightarrow> nat \<Rightarrow> u32 option" where
  "dir_walk 0 vol path ccl off = None"
| "dir_walk (Suc n) vol path ccl off =
     (case vol ccl of
        None \<Rightarrow> None
      | Some es \<Rightarrow>
          (case find (dirent_matches (component_name path off)) es of
             None \<Rightarrow> Some 0
           | Some e \<Rightarrow>
               if path ! (off div 11 * 11 + 11) = 0 then Some (dirent_cluster e)
               else dir_walk n vol path (dirent_cluster e) (off + 12)))"

section \<open>Entries in memory\<close>





lemma component_name_props: "0 \<notin> set (component_name path off)" "length (component_name path off) \<le> 11"
  unfolding component_name_def by (auto dest: set_takeWhileD intro: order_trans [OF length_takeWhile_le])




section \<open>The search changes only its buffers\<close>











section \<open>One cluster\<close>







section \<open>From cluster to cluster\<close>




section \<open>The search for a file\<close>








section \<open>What can be found\<close>

text \<open>
  Ordinary files cannot. The comparison does not stop after the eleven characters of a name, so an
  entry whose name and attribute bytes have no zero among them matches nothing; a directory with only
  such entries, and long-name entries, is empty for the search.
\<close>

lemma ordinary_entry_hidden:
  assumes "length e = 32" "0 \<notin> set (take 12 e)"
  shows "\<not> dirent_matches (component_name path off) e"
proof
  assume m: "dirent_matches (component_name path off) e"
  let ?n = "component_name path off"
  have "length ?n \<le> 11" by (rule component_name_props)
  then have "set (take (Suc (length ?n)) e) \<subseteq> set (take 12 e)" by (intro set_take_subset_set_take) simp
  then show False using m assms(2) by (auto simp: dirent_matches_def)
qed

lemma ordinary_files_hidden:
  assumes "vol root = Some es" "\<forall>e\<in>set es. length e = 32 \<and> (e ! 11 = 0x0F \<or> 0 \<notin> set (take 12 e))"
  shows "dir_walk (Suc n) vol path root off = Some 0"
proof -
  have "\<not> dirent_matches (component_name path off) e" if "e \<in> set es" for e
    using assms(2) that ordinary_entry_hidden [of e path off] by (auto simp: dirent_matches_def)
  then have "find (dirent_matches (component_name path off)) es = None" by (auto simp: find_None_iff)
  then show ?thesis using assms(1) by simp
qed

text \<open>
  A path of two components ends at byte 23, but its end is looked for at byte 22, in the second name. So
  a file in a subdirectory whose name has eleven characters is not returned: its cluster is searched for a third
  component.
\<close>

lemma second_component_never_last:
  assumes "vol ccl = Some es" "find (dirent_matches (component_name path 12)) es = Some e" "path ! 22 \<noteq> 0"
  shows "dir_walk (Suc n) vol path ccl 12 = dir_walk n vol path (dirent_cluster e) 24"
  using assms by simp

end
